theory Spec2Isabelle
  imports
    Complex_Main
    "HOL-Library.Multiset"
    "HOL-Library.List_Lexorder"
    "HOL-Library.Char_ord"
begin

section \<open>Data model (src/types.ts)\<close>

text \<open>
  JavaScript numbers that hold counters are modelled as \<open>int\<close>: the arithmetic of the
  program on them (sums and differences of whole numbers) is exact below \<open>2^53\<close>.
  \<open>repiqueLeads\<close> is read everywhere through \<open>entry.repiqueLeads || 0\<close> or
  \<open>?? 0\<close>, because older stored entries do not carry it: it is an optional field.
  \<open>monthlySalesGoal\<close> is declared optional. The optional \<open>startOfDayBalance\<close> of the
  interface is only ever produced by the balance projection and lives in the projected
  record below.
\<close>

record DailyEntry =
  date :: string
  newLeads :: int
  discardedLeads :: int
  repiqueLeads :: "int option"
  localVisits :: int
  contactingLeads :: int
  inProgressLeads :: int
  scheduledLeads :: int
  negotiationLeads :: int
  creditAnalysisLeads :: int
  approvedLeads :: int
  signedLeads :: int

record BrokerProfile =
  brokerName :: string
  initialLeads :: int
  monthlySalesGoal :: "int option"
  dailyEntries :: "DailyEntry list"

section \<open>JavaScript built-ins used by the handlers\<close>

text \<open>
  A \<open>string\<close> holds characters from U+0000 to U+00FF (Latin-1), which covers names
  written in Portuguese; a name with a character beyond U+00FF is outside the model.
  On these characters \<open>String.prototype.toLowerCase\<close> works character by character:
  by the Unicode tables the capital letters are U+0041 to U+005A (\<open>A\<close> to \<open>Z\<close>),
  U+00C0 to U+00D6 and U+00D8 to U+00DE (the accented capitals; U+00D7 is the
  multiplication sign), each has its small letter 32 places further on, and every other
  character of the range is left as it is.
\<close>

definition toLowerChar :: "char \<Rightarrow> char" where
  "toLowerChar c =
     (let n = (of_char c :: nat)
      in if (65 \<le> n \<and> n \<le> 90) \<or> (192 \<le> n \<and> n \<le> 214) \<or> (216 \<le> n \<and> n \<le> 222)
         then char_of (n + 32) else c)"

definition toLowerCase :: "string \<Rightarrow> string" where
  "toLowerCase s = map toLowerChar s"

text \<open>\<open>Array.prototype.findIndex\<close>: the first index whose element passes, or \<open>-1\<close>.\<close>

fun findIndex :: "('a \<Rightarrow> bool) \<Rightarrow> 'a list \<Rightarrow> int" where
  "findIndex P [] = - 1"
| "findIndex P (x # xs) =
     (if P x then 0 else (let i = findIndex P xs in if i = - 1 then - 1 else i + 1))"

subsection \<open>Sorting\<close>

text \<open>
  \<open>Array.prototype.sort\<close> with a comparator is stable: \<open>x\<close> goes before the first
  element \<open>y\<close> it does not compare greater than (\<open>cmp x y \<le> 0\<close>), and elements that
  compare equal keep their order.
\<close>

fun insertBy :: "('a \<Rightarrow> 'a \<Rightarrow> int) \<Rightarrow> 'a \<Rightarrow> 'a list \<Rightarrow> 'a list" where
  "insertBy cmp x [] = [x]"
| "insertBy cmp x (y # ys) = (if cmp x y \<le> 0 then x # y # ys else y # insertBy cmp x ys)"

definition jsSort :: "('a \<Rightarrow> 'a \<Rightarrow> int) \<Rightarrow> 'a list \<Rightarrow> 'a list" where
  "jsSort cmp xs = foldr (insertBy cmp) xs []"

subsection \<open>Strings and dates\<close>

text \<open>
  Strings compare with \<open><\<close> by code units, lexicographically: the order of
  \<open>List_Lexorder\<close> over \<open>Char_ord\<close>.
\<close>

definition startsWith :: "string \<Rightarrow> string \<Rightarrow> bool" where
  "startsWith s pre = (take (length pre) s = pre)"

definition isDigit :: "char \<Rightarrow> bool" where
  "isDigit c = (48 \<le> (of_char c :: nat) \<and> (of_char c :: nat) \<le> 57)"

definition digitVal :: "char \<Rightarrow> nat" where
  "digitVal c = of_char c - 48"

definition digitChar :: "nat \<Rightarrow> char" where
  "digitChar n = char_of (48 + n)"

text \<open>The proleptic Gregorian calendar of ECMAScript, for the years \<open>0000\<close> to \<open>9999\<close>.\<close>

type_synonym civil = "nat \<times> nat \<times> nat"

definition isLeapYear :: "nat \<Rightarrow> bool" where
  "isLeapYear y = (y mod 4 = 0 \<and> (y mod 100 \<noteq> 0 \<or> y mod 400 = 0))"

definition daysInMonth :: "nat \<Rightarrow> nat \<Rightarrow> nat" where
  "daysInMonth y m =
     (if m = 2 then (if isLeapYear y then 29 else 28)
      else if m = 4 \<or> m = 6 \<or> m = 9 \<or> m = 11 then 30 else 31)"

definition validCivil :: "civil \<Rightarrow> bool" where
  "validCivil c =
     (case c of (y, m, d) \<Rightarrow> y \<le> 9999 \<and> 1 \<le> m \<and> m \<le> 12 \<and> 1 \<le> d \<and> d \<le> daysInMonth y m)"

text \<open>
  The date-only form \<open>YYYY-MM-DD\<close> that \<open><input type="date">\<close> produces and
  \<open>types.ts\<close> documents for \<open>DailyEntry.date\<close>. Any other string, and any day that
  is not in the calendar, gives no date (\<open>new Date\<close> then holds \<open>NaN\<close>).
\<close>

fun parseISODate :: "string \<Rightarrow> civil option" where
  "parseISODate [y1, y2, y3, y4, s1, m1, m2, s2, d1, d2] =
     (if isDigit y1 \<and> isDigit y2 \<and> isDigit y3 \<and> isDigit y4 \<and> s1 = CHR ''-'' \<and>
         isDigit m1 \<and> isDigit m2 \<and> s2 = CHR ''-'' \<and> isDigit d1 \<and> isDigit d2
      then
        (let c = (1000 * digitVal y1 + 100 * digitVal y2 + 10 * digitVal y3 + digitVal y4,
                  10 * digitVal m1 + digitVal m2,
                  10 * digitVal d1 + digitVal d2)
         in if validCivil c then Some c else None)
      else None)"
| "parseISODate _ = None"

declare parseISODate.simps [simp del]

definition pad2 :: "nat \<Rightarrow> string" where
  "pad2 n = [digitChar (n div 10), digitChar (n mod 10)]"

definition pad4 :: "nat \<Rightarrow> string" where
  "pad4 n = [digitChar (n div 1000), digitChar (n div 100 mod 10),
             digitChar (n div 10 mod 10), digitChar (n mod 10)]"

definition formatISODate :: "civil \<Rightarrow> string" where
  "formatISODate c = (case c of (y, m, d) \<Rightarrow> pad4 y @ ''-'' @ pad2 m @ ''-'' @ pad2 d)"

text \<open>Days before 1 January of year \<open>y\<close>, counted from 1 January of year 0.\<close>

definition daysBeforeYear :: "nat \<Rightarrow> int" where
  "daysBeforeYear y =
     365 * int y + int ((y + 3) div 4) - int ((y + 99) div 100) + int ((y + 399) div 400)"

definition daysBeforeMonth :: "nat \<Rightarrow> nat \<Rightarrow> nat" where
  "daysBeforeMonth y m = sum_list (map (daysInMonth y) [1..<m])"

text \<open>Days since 1 January 1970, which is day \<open>719528\<close> from 1 January of year 0.\<close>

definition daysFromCivil :: "civil \<Rightarrow> int" where
  "daysFromCivil c =
     (case c of (y, m, d) \<Rightarrow> daysBeforeYear y + int (daysBeforeMonth y m) + int d - 1 - 719528)"

function yearFrom :: "nat \<Rightarrow> int \<Rightarrow> nat" where
  "yearFrom y z = (if daysBeforeYear (Suc y) \<le> z then yearFrom (Suc y) z else y)"
  by pat_completeness auto
termination
proof (relation "measure (\<lambda>(y, z). nat (z - daysBeforeYear y))")
  show "wf (measure (\<lambda>(y, z). nat (z - daysBeforeYear y)))"
    by simp
next
  fix y :: nat and z :: int
  assume le: "daysBeforeYear (Suc y) \<le> z"
  have "daysBeforeYear y < daysBeforeYear (Suc y)"
    unfolding daysBeforeYear_def by simp
  with le show "((Suc y, z), (y, z)) \<in> measure (\<lambda>(y, z). nat (z - daysBeforeYear y))"
    by simp
qed

function monthFrom :: "nat \<Rightarrow> nat \<Rightarrow> nat \<Rightarrow> nat \<times> nat" where
  "monthFrom y m r =
     (if m < 12 \<and> daysInMonth y m \<le> r then monthFrom y (Suc m) (r - daysInMonth y m)
      else (m, r))"
  by pat_completeness auto
termination
  by (relation "measure (\<lambda>(y, m, r). 12 - m)") auto

declare yearFrom.simps [simp del] monthFrom.simps [simp del]

text \<open>
  The calendar date of a day number (not before year 0): the year is searched upwards
  from a lower estimate, then the month.
\<close>

definition civilFromDays :: "int \<Rightarrow> civil" where
  "civilFromDays n =
     (let z = n + 719528;
          y = yearFrom (nat (z div 366)) z;
          (m, r) = monthFrom y 1 (nat (z - daysBeforeYear y))
      in (y, m, Suc r))"

text \<open>
  A \<open>Date\<close> is its time value, the milliseconds since the epoch in UTC, or no value
  (\<open>NaN\<close>, an invalid date). \<open>new Date(s)\<close> reads a date-only string as midnight UTC.
\<close>

definition msPerDay :: int where
  "msPerDay = 86400000"

definition newDate :: "string \<Rightarrow> int option" where
  "newDate s = map_option (\<lambda>c. daysFromCivil c * msPerDay) (parseISODate s)"

text \<open>
  Local time belongs to the host. As in ECMA-262, a time zone is its function
  \<open>LocalTZA(t, isUTC)\<close>: the milliseconds that local time is ahead of UTC, at the UTC
  time value \<open>t\<close> when \<open>isUTC\<close> holds and at the local time value \<open>t\<close> otherwise, where a
  local time that a change of clocks skips or repeats is read with the offset in force
  before the change. The offset depends on \<open>t\<close> wherever clocks change for daylight
  saving time. \<open>LocalTime(t) = t + LocalTZA(t, true)\<close> and
  \<open>UTC(t) = t - LocalTZA(t, false)\<close>; \<open>getTimezoneOffset()\<close> is \<open>LocalTZA(t, true)\<close>
  negated, in minutes.
\<close>

type_synonym timeZone = "int \<Rightarrow> bool \<Rightarrow> int"

definition localTime :: "timeZone \<Rightarrow> int \<Rightarrow> int" where
  "localTime z t = t + z t True"

definition utcTime :: "timeZone \<Rightarrow> int \<Rightarrow> int" where
  "utcTime z t = t - z t False"

text \<open>A string of the form date plus \<open>T00:00:00\<close> is read as midnight local time.\<close>

definition newDateLocal :: "timeZone \<Rightarrow> string \<Rightarrow> int option" where
  "newDateLocal z s =
     (if drop 10 s = ''T00:00:00''
      then map_option (\<lambda>c. utcTime z (daysFromCivil c * msPerDay)) (parseISODate (take 10 s))
      else None)"

text \<open>
  \<open>getDate()\<close> is the day of the month of the local time. \<open>setDate(dt)\<close> computes, for
  the local time \<open>t\<close>, \<open>MakeDate(MakeDay(YearFromTime(t), MonthFromTime(t), dt),
  TimeWithinDay(t))\<close> and stores its \<open>UTC\<close>: \<open>MakeDay\<close> counts \<open>dt - 1\<close> days on from the
  first day of the month, also beyond its end, and the time within the day is kept.
\<close>

definition getDate :: "timeZone \<Rightarrow> int \<Rightarrow> int" where
  "getDate z tv = (case civilFromDays (localTime z tv div msPerDay) of (y, m, d) \<Rightarrow> int d)"

definition setDate :: "timeZone \<Rightarrow> int \<Rightarrow> int \<Rightarrow> int" where
  "setDate z tv dt =
     (let t = localTime z tv
      in case civilFromDays (t div msPerDay) of
           (y, m, d) \<Rightarrow>
             utcTime z ((daysFromCivil (y, m, 1) + dt - 1) * msPerDay + t mod msPerDay))"

text \<open>\<open>d.toISOString().split('T')[0]\<close>: the UTC calendar date of a time value.\<close>

definition toISODateString :: "int \<Rightarrow> string" where
  "toISODateString t = formatISODate (civilFromDays (t div msPerDay))"

text \<open>
  \<open>new Date(a.date).getTime() - new Date(b.date).getTime()\<close>: the difference is \<open>NaN\<close>
  when either date is invalid, and \<open>sort\<close> takes a \<open>NaN\<close> from its comparator as 0.
\<close>

definition byDate :: "'a DailyEntry_scheme \<Rightarrow> 'a DailyEntry_scheme \<Rightarrow> int" where
  "byDate a b =
     (case (newDate (date a), newDate (date b)) of
        (Some ta, Some tb) \<Rightarrow> ta - tb
      | _ \<Rightarrow> 0)"

section \<open>The ledger store (src/App.tsx)\<close>

text \<open>
  The messages of \<open>alert\<close>, by what they report:
  \<^item> \<open>DuplicateName\<close>: a broker with this name already exists (add and update);
  \<^item> \<open>RestoreSucceeded\<close>: the data were restored;
  \<^item> \<open>RestoreCorrupted\<close>: the backup file looks corrupted, the restore failed;
  \<^item> \<open>ImportFailed\<close>: the backup file could not be read in the expected format;
  \<^item> \<open>BulkDatesReversed\<close>: the start date of a bulk edit is after its end date;
  \<^item> \<open>FixFieldErrors\<close>: fields with errors must be corrected before saving;
  \<^item> \<open>BulkSaved\<close>: the bulk edit was saved.
\<close>

datatype alert =
    DuplicateName
  | RestoreSucceeded
  | RestoreCorrupted
  | ImportFailed
  | BulkDatesReversed
  | FixFieldErrors
  | BulkSaved

text \<open>
  The component state of \<open>App\<close>: the two \<open>useState\<close> cells the handlers read and write,
  and the alerts shown so far. One handler runs at a time, so \<open>prev\<close> inside a
  \<open>setBrokers\<close> updater is the \<open>brokers\<close> the handler saw.
\<close>

record AppState =
  brokers :: "BrokerProfile list"
  selectedBroker :: "BrokerProfile option"
  alerts :: "alert list"

definition handleAddBroker :: "string \<Rightarrow> int \<Rightarrow> int \<Rightarrow> AppState \<Rightarrow> AppState" where
  "handleAddBroker name initLeads goal st =
     (if list_ex (\<lambda>b. toLowerCase (brokerName b) = toLowerCase name) (brokers st)
      then st\<lparr>alerts := alerts st @ [DuplicateName]\<rparr>
      else st\<lparr>brokers := brokers st @
             [\<lparr>brokerName = name, initialLeads = initLeads,
               monthlySalesGoal = Some goal, dailyEntries = []\<rparr>]\<rparr>)"

text \<open>
  \<open>handleUpdateBroker originalName updatedData\<close>; the three fields of \<open>updatedData\<close> are
  passed one by one. The result is the boolean the handler returns and the new state.
\<close>

definition applyUpdate :: "string \<Rightarrow> string \<Rightarrow> int \<Rightarrow> int \<Rightarrow> BrokerProfile \<Rightarrow> BrokerProfile" where
  "applyUpdate originalName updName updLeads updGoal broker =
     (if brokerName broker = originalName
      then broker\<lparr>brokerName := updName, initialLeads := updLeads,
                  monthlySalesGoal := Some updGoal\<rparr>
      else broker)"

definition handleUpdateBroker ::
  "string \<Rightarrow> string \<Rightarrow> int \<Rightarrow> int \<Rightarrow> AppState \<Rightarrow> bool \<times> AppState" where
  "handleUpdateBroker originalName updName updLeads updGoal st =
     (if toLowerCase originalName \<noteq> toLowerCase updName \<and>
         list_ex (\<lambda>b. toLowerCase (brokerName b) = toLowerCase updName) (brokers st)
      then (False, st\<lparr>alerts := alerts st @ [DuplicateName]\<rparr>)
      else
        (let newBrokers = map (applyUpdate originalName updName updLeads updGoal) (brokers st);
             sel = (case selectedBroker st of
                      None \<Rightarrow> None
                    | Some s \<Rightarrow>
                        if brokerName s = originalName
                        then (case find (\<lambda>b. brokerName b = updName) newBrokers of
                                Some u \<Rightarrow> Some u
                              | None \<Rightarrow> Some s)
                        else Some s)
         in (True, st\<lparr>brokers := newBrokers, selectedBroker := sel\<rparr>)))"

text \<open>The upsert of \<open>handleSaveEntry\<close> on one broker's entries (keyed by date).\<close>

definition upsertEntry :: "DailyEntry \<Rightarrow> DailyEntry list \<Rightarrow> DailyEntry list" where
  "upsertEntry entry es =
     (let existingIndex = findIndex (\<lambda>e. date e = date entry) es
      in if existingIndex > - 1 then es[nat existingIndex := entry] else es @ [entry])"

text \<open>
  Both entry handlers map over the store and rewrite every broker carrying the selected
  broker's name; each rewritten broker is also handed to \<open>setSelectedBroker\<close>, so the
  last one wins.
\<close>

definition updateSelected ::
  "(DailyEntry list \<Rightarrow> DailyEntry list) \<Rightarrow> AppState \<Rightarrow> AppState" where
  "updateSelected f st =
     (case selectedBroker st of
        None \<Rightarrow> st
      | Some sel \<Rightarrow>
          (let upd = (\<lambda>broker. broker\<lparr>dailyEntries := f (dailyEntries broker)\<rparr>);
               newBrokers = map (\<lambda>broker. if brokerName broker = brokerName sel
                                          then upd broker else broker) (brokers st);
               hits = filter (\<lambda>broker. brokerName broker = brokerName sel) (brokers st)
           in st\<lparr>brokers := newBrokers,
                 selectedBroker := (if hits = [] then Some sel else Some (upd (last hits)))\<rparr>))"

definition handleSaveEntry :: "DailyEntry \<Rightarrow> AppState \<Rightarrow> AppState" where
  "handleSaveEntry entry st = updateSelected (upsertEntry entry) st"

definition handleDeleteEntry :: "string \<Rightarrow> AppState \<Rightarrow> AppState" where
  "handleDeleteEntry d st = updateSelected (filter (\<lambda>e. date e \<noteq> d)) st"


section \<open>The balance projection and the monthly summary (src/components/BrokerDashboard.tsx)\<close>

text \<open>\<open>{ ...entry, startOfDayBalance, endOfDayBalance }\<close>: the entry with two more fields.\<close>

record EntryWithBalance = DailyEntry +
  startOfDayBalance :: int
  endOfDayBalance :: int

definition withBalance :: "DailyEntry \<Rightarrow> int \<Rightarrow> int \<Rightarrow> EntryWithBalance" where
  "withBalance entry s t = DailyEntry.extend entry \<lparr>startOfDayBalance = s, endOfDayBalance = t\<rparr>"

text \<open>\<open>entry.repiqueLeads || 0\<close>\<close>

definition orZero :: "int option \<Rightarrow> int" where
  "orZero v = (case v of None \<Rightarrow> 0 | Some n \<Rightarrow> n)"

definition chronologicalEntries :: "BrokerProfile \<Rightarrow> DailyEntry list" where
  "chronologicalEntries profile = jsSort byDate (dailyEntries profile)"

text \<open>
  The \<open>map\<close> over the sorted entries, with \<open>currentLeadBase\<close> carried from one call of
  the callback to the next.
\<close>

fun entriesWithBalance :: "int \<Rightarrow> DailyEntry list \<Rightarrow> EntryWithBalance list" where
  "entriesWithBalance currentLeadBase [] = []"
| "entriesWithBalance currentLeadBase (entry # rest) =
     (let startOfDay = currentLeadBase;
          endOfDay = currentLeadBase + newLeads entry + orZero (repiqueLeads entry)
                       - discardedLeads entry - signedLeads entry
      in withBalance entry startOfDay endOfDay # entriesWithBalance endOfDay rest)"

definition entriesWithCalculatedBalances :: "BrokerProfile \<Rightarrow> EntryWithBalance list" where
  "entriesWithCalculatedBalances profile =
     rev (entriesWithBalance (initialLeads profile) (chronologicalEntries profile))"

text \<open>The list \<open>handleGenerateCsv\<close> writes its rows from.\<close>

definition csvChronologicalEntries :: "BrokerProfile \<Rightarrow> EntryWithBalance list" where
  "csvChronologicalEntries profile = rev (entriesWithCalculatedBalances profile)"

text \<open>
  \<open>monthlySummary\<close> for \<open>selectedMonth\<close> (a string \<open>YYYY-MM\<close>). The loop with its
  \<open>break\<close> is \<open>monthStartLoop\<close>. The \<open>conversionRate\<close> of the summary, a quotient
  formatted by \<open>toFixed\<close>, is left out.
\<close>

fun monthStartLoop :: "string \<Rightarrow> int \<Rightarrow> DailyEntry list \<Rightarrow> int" where
  "monthStartLoop firstDay currentLeadBaseForMonth [] = currentLeadBaseForMonth"
| "monthStartLoop firstDay currentLeadBaseForMonth (entry # rest) =
     (if date entry < firstDay
      then monthStartLoop firstDay
             (currentLeadBaseForMonth + newLeads entry + orZero (repiqueLeads entry)
                - discardedLeads entry - signedLeads entry) rest
      else currentLeadBaseForMonth)"

record MonthlySummary =
  monthNewLeads :: int
  monthRepiqueLeads :: int
  monthSignedLeads :: int
  monthDiscardedLeads :: int
  initialLeadsForMonth :: int
  finalLeadsForMonth :: int

definition monthlySummary :: "BrokerProfile \<Rightarrow> string \<Rightarrow> MonthlySummary" where
  "monthlySummary profile selectedMonth =
     (let chronological = jsSort byDate (dailyEntries profile);
          currentLeadBaseForMonth =
            monthStartLoop (selectedMonth @ ''-01'') (initialLeads profile) chronological;
          monthEntries = filter (\<lambda>entry. startsWith (date entry) selectedMonth) chronological;
          newL = foldl (\<lambda>sum entry. sum + newLeads entry) 0 monthEntries;
          repiqueL = foldl (\<lambda>sum entry. sum + orZero (repiqueLeads entry)) 0 monthEntries;
          signedL = foldl (\<lambda>sum entry. sum + signedLeads entry) 0 monthEntries;
          discardedL = foldl (\<lambda>sum entry. sum + discardedLeads entry) 0 monthEntries;
          totalLeadsIn = newL + repiqueL
      in \<lparr>monthNewLeads = newL, monthRepiqueLeads = repiqueL, monthSignedLeads = signedL,
          monthDiscardedLeads = discardedL,
          initialLeadsForMonth = currentLeadBaseForMonth,
          finalLeadsForMonth = currentLeadBaseForMonth + totalLeadsIn - discardedL - signedL\<rparr>)"

text \<open>
  The bulk edit form. A form cell holds \<open>''\<close> (\<open>Empty\<close>) or a number; a key that was
  never typed into is absent from \<open>bulkDailyData\<close>.
\<close>

datatype field =
    NewLeads | DiscardedLeads | RepiqueLeads | LocalVisits | ContactingLeads
  | InProgressLeads | ScheduledLeads | NegotiationLeads | CreditAnalysisLeads
  | ApprovedLeads | SignedLeads

definition fieldOrder :: "field list" where
  "fieldOrder = [NewLeads, DiscardedLeads, RepiqueLeads, LocalVisits, ContactingLeads,
                 InProgressLeads, ScheduledLeads, NegotiationLeads, CreditAnalysisLeads,
                 ApprovedLeads, SignedLeads]"

datatype formValue = Empty | Num int

record BulkForm =
  bulkStartDate :: string
  bulkEndDate :: string
  bulkDailyData :: "field \<rightharpoonup> formValue"
  bulkErrors :: "field \<rightharpoonup> bool"

definition handleBulkNumberChange :: "field \<Rightarrow> formValue \<Rightarrow> BulkForm \<Rightarrow> BulkForm" where
  "handleBulkNumberChange fld v form =
     form\<lparr>bulkErrors := (bulkErrors form)(fld \<mapsto> (case v of Empty \<Rightarrow> False | Num n \<Rightarrow> n < 0)),
           bulkDailyData := (bulkDailyData form)(fld \<mapsto> v)\<rparr>"

text \<open>\<open>Object.values(bulkErrors).some(isError => isError)\<close>; the keys are field names.\<close>

definition hasActiveBulkErrors :: "(field \<rightharpoonup> bool) \<Rightarrow> bool" where
  "hasActiveBulkErrors errs = list_ex (\<lambda>fld. errs fld = Some True) fieldOrder"

text \<open>
  \<open>typeof bulkDailyData.f === 'number' ? bulkDailyData.f : (existingEntry?.f ?? 0)\<close>,
  with \<open>existingEntry?.f\<close> as the second argument.
\<close>

definition pick :: "formValue option \<Rightarrow> int option \<Rightarrow> int" where
  "pick cell existingValue = (case cell of Some (Num n) \<Rightarrow> n | _ \<Rightarrow> orZero existingValue)"

definition bulkUpdatedEntry ::
  "BrokerProfile \<Rightarrow> (field \<rightharpoonup> formValue) \<Rightarrow> string \<Rightarrow> DailyEntry" where
  "bulkUpdatedEntry profile cells dateString =
     (let existingEntry = find (\<lambda>e. date e = dateString) (dailyEntries profile)
      in \<lparr>date = dateString,
          newLeads = pick (cells NewLeads) (map_option newLeads existingEntry),
          discardedLeads = pick (cells DiscardedLeads) (map_option discardedLeads existingEntry),
          repiqueLeads = Some (pick (cells RepiqueLeads) (Option.bind existingEntry repiqueLeads)),
          localVisits = pick (cells LocalVisits) (map_option localVisits existingEntry),
          contactingLeads = pick (cells ContactingLeads) (map_option contactingLeads existingEntry),
          inProgressLeads = pick (cells InProgressLeads) (map_option inProgressLeads existingEntry),
          scheduledLeads = pick (cells ScheduledLeads) (map_option scheduledLeads existingEntry),
          negotiationLeads = pick (cells NegotiationLeads) (map_option negotiationLeads existingEntry),
          creditAnalysisLeads =
            pick (cells CreditAnalysisLeads) (map_option creditAnalysisLeads existingEntry),
          approvedLeads = pick (cells ApprovedLeads) (map_option approvedLeads existingEntry),
          signedLeads = pick (cells SignedLeads) (map_option signedLeads existingEntry)\<rparr>)"

text \<open>
  The \<open>while\<close> loop of \<open>handleBulkSave\<close>: the entries handed to \<open>onSaveEntry\<close>, in
  order, with \<open>currentDate.setDate(currentDate.getDate() + 1)\<close> between two rounds.
  Nothing in the loop bounds the number of rounds for an arbitrary time zone function, so
  the result is optional: \<open>None\<close> stands for a loop that does not end.
\<close>

partial_function (option) bulkLoop ::
  "timeZone \<Rightarrow> BrokerProfile \<Rightarrow> (field \<rightharpoonup> formValue) \<Rightarrow> int \<Rightarrow> int \<Rightarrow> DailyEntry list option"
where
  "bulkLoop z profile cells currentDate endDate =
     (if currentDate \<le> endDate
      then Option.bind
             (bulkLoop z profile cells (setDate z currentDate (getDate z currentDate + 1))
                endDate)
             (\<lambda>saved.
                Some (bulkUpdatedEntry profile cells (toISODateString currentDate) # saved))
      else Some [])"

text \<open>
  \<open>handleBulkSave\<close>: the calls of \<open>onSaveEntry\<close> it makes and the alert it shows.
  Comparing dates compares time values, and a comparison with \<open>NaN\<close> is false.
\<close>

definition handleBulkSave ::
  "timeZone \<Rightarrow> BrokerProfile \<Rightarrow> BulkForm \<Rightarrow> (DailyEntry list \<times> alert) option" where
  "handleBulkSave z profile form =
     (if (case (newDate (bulkStartDate form), newDate (bulkEndDate form)) of
            (Some s, Some e) \<Rightarrow> s > e
          | _ \<Rightarrow> False)
      then Some ([], BulkDatesReversed)
      else if hasActiveBulkErrors (bulkErrors form) then Some ([], FixFieldErrors)
      else
        (case (newDateLocal z (bulkStartDate form @ ''T00:00:00''),
               newDateLocal z (bulkEndDate form @ ''T00:00:00'')) of
           (Some currentDate, Some endDate) \<Rightarrow>
             map_option (\<lambda>saved. (saved, BulkSaved))
               (bulkLoop z profile (bulkDailyData form) currentDate endDate)
         | _ \<Rightarrow> Some ([], BulkSaved)))"

section \<open>Ranking and import (BrokerManagement in src/components/BrokerDashboard.tsx)\<close>

text \<open>\<open>{ ...broker, totalSales }\<close>\<close>

record RankedBroker = BrokerProfile +
  totalSales :: int

definition withTotalSales :: "BrokerProfile \<Rightarrow> RankedBroker" where
  "withTotalSales broker =
     BrokerProfile.extend broker
       \<lparr>totalSales = foldl (\<lambda>sum entry. sum + signedLeads entry) 0 (dailyEntries broker)\<rparr>"

definition rankedBrokers :: "BrokerProfile list \<Rightarrow> RankedBroker list" where
  "rankedBrokers bs =
     jsSort (\<lambda>a b. totalSales b - totalSales a)
       (filter (\<lambda>broker. totalSales broker > 0) (map withTotalSales bs))"

text \<open>
  The import reads a file and hands its text to \<open>JSON.parse\<close>. The value parsed is any
  JSON value; an object is the list of its properties.
\<close>

datatype json =
    JNull
  | JBool bool
  | JNumber rat
  | JString string
  | JArray "json list"
  | JObject "(string \<times> json) list"

text \<open>
  \<open>item.key\<close>: reading a property of \<open>null\<close> throws a \<open>TypeError\<close> (\<open>None\<close>); a value
  that is not an object has no such property (\<open>undefined\<close>, here \<open>Some None\<close>).
\<close>

definition getProp :: "json \<Rightarrow> string \<Rightarrow> json option option" where
  "getProp item key =
     (case item of
        JNull \<Rightarrow> None
      | JObject props \<Rightarrow> Some (map_of props key)
      | _ \<Rightarrow> Some None)"

definition isJString :: "json option \<Rightarrow> bool" where
  "isJString v = (case v of Some (JString s) \<Rightarrow> True | _ \<Rightarrow> False)"

definition isJNumber :: "json option \<Rightarrow> bool" where
  "isJNumber v = (case v of Some (JNumber n) \<Rightarrow> True | _ \<Rightarrow> False)"

definition isJArray :: "json option \<Rightarrow> bool" where
  "isJArray v = (case v of Some (JArray xs) \<Rightarrow> True | _ \<Rightarrow> False)"

text \<open>The callback of \<open>data.every\<close>; \<open>None\<close> when it throws.\<close>

definition itemIsValid :: "json \<Rightarrow> bool option" where
  "itemIsValid item =
     (case getProp item ''brokerName'' of
        None \<Rightarrow> None
      | Some name \<Rightarrow>
          if \<not> isJString name then Some False
          else (case getProp item ''initialLeads'' of
                  None \<Rightarrow> None
                | Some leads \<Rightarrow>
                    if \<not> isJNumber leads then Some False
                    else (case getProp item ''dailyEntries'' of
                            None \<Rightarrow> None
                          | Some entries \<Rightarrow> Some (isJArray entries))))"

fun every :: "('a \<Rightarrow> bool option) \<Rightarrow> 'a list \<Rightarrow> bool option" where
  "every f [] = Some True"
| "every f (x # xs) =
     (case f x of
        None \<Rightarrow> None
      | Some False \<Rightarrow> Some False
      | Some True \<Rightarrow> every f xs)"

definition isValid :: "json \<Rightarrow> bool option" where
  "isValid data = (case data of JArray items \<Rightarrow> every itemIsValid items | _ \<Rightarrow> Some False)"

text \<open>
  The store holds whatever value \<open>setBrokers\<close> is given: the import passes the parsed
  value on as it is. \<open>handleRestoreBrokers\<close> (src/App.tsx) and the \<open>onload\<close> callback of
  \<open>handleFileChange\<close> return the store and the alerts shown. \<open>parsed\<close> is the result
  of \<open>JSON.parse\<close> (\<open>None\<close> when it throws), \<open>confirmed\<close> the answer to \<open>confirm\<close>.
\<close>

definition handleRestoreBrokers :: "json \<Rightarrow> json \<Rightarrow> json \<times> alert list" where
  "handleRestoreBrokers restoredBrokers store =
     (if isJArray (Some restoredBrokers) then (restoredBrokers, [RestoreSucceeded])
      else (store, [RestoreCorrupted]))"

definition handleFileChange :: "json option \<Rightarrow> bool \<Rightarrow> json \<Rightarrow> json \<times> alert list" where
  "handleFileChange parsed confirmed store =
     (case parsed of
        None \<Rightarrow> (store, [ImportFailed])
      | Some data \<Rightarrow>
          (case isValid data of
             Some True \<Rightarrow> if confirmed then handleRestoreBrokers data store else (store, [])
           | _ \<Rightarrow> (store, [ImportFailed])))"

text \<open>A store of typed profiles as the JSON value the backup holds.\<close>

definition jsonOfEntry :: "DailyEntry \<Rightarrow> json" where
  "jsonOfEntry e =
     JObject ([(''date'', JString (date e)),
               (''newLeads'', JNumber (of_int (newLeads e))),
               (''discardedLeads'', JNumber (of_int (discardedLeads e)))] @
              (case repiqueLeads e of None \<Rightarrow> []
               | Some r \<Rightarrow> [(''repiqueLeads'', JNumber (of_int r))]) @
              [(''localVisits'', JNumber (of_int (localVisits e))),
               (''contactingLeads'', JNumber (of_int (contactingLeads e))),
               (''inProgressLeads'', JNumber (of_int (inProgressLeads e))),
               (''scheduledLeads'', JNumber (of_int (scheduledLeads e))),
               (''negotiationLeads'', JNumber (of_int (negotiationLeads e))),
               (''creditAnalysisLeads'', JNumber (of_int (creditAnalysisLeads e))),
               (''approvedLeads'', JNumber (of_int (approvedLeads e))),
               (''signedLeads'', JNumber (of_int (signedLeads e)))])"

definition jsonOfBroker :: "BrokerProfile \<Rightarrow> json" where
  "jsonOfBroker b =
     JObject ([(''brokerName'', JString (brokerName b)),
               (''initialLeads'', JNumber (of_int (initialLeads b)))] @
              (case monthlySalesGoal b of None \<Rightarrow> []
               | Some g \<Rightarrow> [(''monthlySalesGoal'', JNumber (of_int g))]) @
              [(''dailyEntries'', JArray (map jsonOfEntry (dailyEntries b)))])"

definition jsonOfBrokers :: "BrokerProfile list \<Rightarrow> json" where
  "jsonOfBrokers bs = JArray (map jsonOfBroker bs)"

section \<open>Properties stated about the program, and example data\<close>

text \<open>The date invariant of the store: no broker has two entries with the same date.\<close>

definition entryDatesDistinct :: "AppState \<Rightarrow> bool" where
  "entryDatesDistinct st = list_all (\<lambda>b. distinct (map date (dailyEntries b))) (brokers st)"

definition exampleEntry :: "string \<Rightarrow> int \<Rightarrow> int \<Rightarrow> int option \<Rightarrow> int \<Rightarrow> DailyEntry" where
  "exampleEntry d n disc rep sg =
     \<lparr>date = d, newLeads = n, discardedLeads = disc, repiqueLeads = rep, localVisits = 0,
      contactingLeads = 0, inProgressLeads = 0, scheduledLeads = 0, negotiationLeads = 0,
      creditAnalysisLeads = 0, approvedLeads = 0, signedLeads = sg\<rparr>"

text \<open>
  Comparison of names without regard to case, stated on the letters and not through
  \<open>toLowerCase\<close>: two characters are the same letter when they are equal or one is a
  capital letter and the other the small letter that belongs to it; two names are equal
  ignoring case when they have the same length and the same letter at every position.
\<close>

definition isCapital :: "char \<Rightarrow> bool" where
  "isCapital c =
     (c \<in> set (map char_of ([65 ..< 91] @ [192 ..< 215] @ [216 ..< 223] :: nat list)))"

definition smallOf :: "char \<Rightarrow> char" where
  "smallOf c = char_of (of_char c + (32 :: nat))"

definition sameLetter :: "char \<Rightarrow> char \<Rightarrow> bool" where
  "sameLetter c d =
     (c = d \<or> (isCapital c \<and> d = smallOf c) \<or> (isCapital d \<and> c = smallOf d))"

definition equalIgnoringCase :: "string \<Rightarrow> string \<Rightarrow> bool" where
  "equalIgnoringCase s t = list_all2 sameLetter s t"

text \<open>
  The name Joao written with its tilde, in small letters and in capitals: the third letter
  is U+00E3 in the one and U+00C3 in the other.
\<close>

definition joaoSmall :: string where
  "joaoSmall = [CHR ''j'', CHR ''o'', CHR 0xE3, CHR ''o'']"

definition joaoCapital :: string where
  "joaoCapital = [CHR ''J'', CHR ''O'', CHR 0xC3, CHR ''O'']"

definition emptyStore :: AppState where
  "emptyStore = \<lparr>brokers = [], selectedBroker = None, alerts = []\<rparr>"

text \<open>
  The broker of the worked example of the specification, with the later day stored first.
\<close>

definition anaProfile :: BrokerProfile where
  "anaProfile =
     \<lparr>brokerName = ''Ana'', initialLeads = 100, monthlySalesGoal = Some 4,
      dailyEntries = [exampleEntry ''2024-01-02'' 5 0 (Some 3) 2,
                      exampleEntry ''2024-01-01'' 10 2 None 1]\<rparr>"

definition biaProfile :: BrokerProfile where
  "biaProfile =
     \<lparr>brokerName = ''Bia'', initialLeads = 5, monthlySalesGoal = None, dailyEntries = []\<rparr>"

definition twoBrokers :: AppState where
  "twoBrokers =
     \<lparr>brokers = [anaProfile, biaProfile], selectedBroker = Some anaProfile, alerts = []\<rparr>"

definition annProfile :: BrokerProfile where
  "annProfile = anaProfile\<lparr>brokerName := ''Ann'', initialLeads := 7, monthlySalesGoal := Some 2\<rparr>"

definition twoBrokersRenamed :: AppState where
  "twoBrokersRenamed =
     \<lparr>brokers = [annProfile, biaProfile], selectedBroker = Some annProfile, alerts = []\<rparr>"

text \<open>Four brokers whose sales add up to 0, 5, 5 and 3, in this order.\<close>

definition salesExample :: "BrokerProfile list" where
  "salesExample =
     [\<lparr>brokerName = ''Rui'', initialLeads = 10, monthlySalesGoal = None,
       dailyEntries = [exampleEntry ''2024-01-01'' 3 0 None 0]\<rparr>,
      \<lparr>brokerName = ''Eva'', initialLeads = 10, monthlySalesGoal = None,
       dailyEntries = [exampleEntry ''2024-01-01'' 3 0 None 2,
                       exampleEntry ''2024-01-02'' 4 0 None 3]\<rparr>,
      \<lparr>brokerName = ''Leo'', initialLeads = 10, monthlySalesGoal = None,
       dailyEntries = [exampleEntry ''2024-01-03'' 9 0 None 5]\<rparr>,
      \<lparr>brokerName = ''Ivo'', initialLeads = 10, monthlySalesGoal = None,
       dailyEntries = [exampleEntry ''2024-01-03'' 9 0 None 3]\<rparr>]"

text \<open>
  The shape the specification asks of an imported document, in its words: an array whose
  every element carries a string \<open>brokerName\<close>, a numeric \<open>initialLeads\<close> and an array
  \<open>dailyEntries\<close>.
\<close>

definition itemHasShape :: "json \<Rightarrow> bool" where
  "itemHasShape item =
     (case item of
        JObject props \<Rightarrow>
          (case map_of props ''brokerName'' of Some (JString s) \<Rightarrow> True | _ \<Rightarrow> False) \<and>
          (case map_of props ''initialLeads'' of Some (JNumber n) \<Rightarrow> True | _ \<Rightarrow> False) \<and>
          (case map_of props ''dailyEntries'' of Some (JArray xs) \<Rightarrow> True | _ \<Rightarrow> False)
      | _ \<Rightarrow> False)"

definition hasBackupShape :: "json \<Rightarrow> bool" where
  "hasBackupShape data =
     (case data of JArray items \<Rightarrow> list_all itemHasShape items | _ \<Rightarrow> False)"

definition arrayOfStrings :: json where
  "arrayOfStrings = JArray [JString ''Ana'', JString ''Bia'']"

definition storedBackup :: json where
  "storedBackup = jsonOfBrokers [anaProfile, biaProfile]"

definition otherBackup :: json where
  "otherBackup = jsonOfBrokers [biaProfile]"

text \<open>
  A date the program can order: a string \<open>YYYY-MM-DD\<close> that names a day of the calendar.
  \<open>timeOf\<close> is the time value \<open>new Date(s).getTime()\<close> of such a string.
\<close>

definition isISODate :: "string \<Rightarrow> bool" where
  "isISODate s = (parseISODate s \<noteq> None)"

definition timeOf :: "string \<Rightarrow> int" where
  "timeOf s = (case newDate s of Some t \<Rightarrow> t | None \<Rightarrow> 0)"

definition datesValid :: "BrokerProfile \<Rightarrow> bool" where
  "datesValid p = list_all (\<lambda>e. isISODate (date e)) (dailyEntries p)"

text \<open>What one entry adds to the balance.\<close>

definition leadDelta :: "'a DailyEntry_scheme \<Rightarrow> int" where
  "leadDelta e = newLeads e + orZero (repiqueLeads e) - discardedLeads e - signedLeads e"

text \<open>A broker who discards more leads than there are.\<close>

definition overdrawnProfile :: BrokerProfile where
  "overdrawnProfile =
     \<lparr>brokerName = ''Rui'', initialLeads = 1, monthlySalesGoal = None,
      dailyEntries = [exampleEntry ''2024-03-05'' 0 5 None 0]\<rparr>"

text \<open>Field by field order of calendar dates.\<close>

definition civilLess :: "civil \<Rightarrow> civil \<Rightarrow> bool" where
  "civilLess c c' =
     (case (c, c') of ((y, m, d), (y', m', d')) \<Rightarrow> y < y' \<or> y = y' \<and> (m < m' \<or> m = m' \<and> d < d'))"

text \<open>
  Months. A month is a string \<open>YYYY-MM\<close>, as \<open><input type="month">\<close> gives it; it
  is a month of the calendar when its first day is a date. \<open>monthOf\<close> is the month of a
  date (its first seven characters), \<open>monthIndex\<close> counts months from January of year 0,
  and \<open>monthsFromTo\<close> lists the months from one month through another.
\<close>

definition isISOMonth :: "string \<Rightarrow> bool" where
  "isISOMonth m = isISODate (m @ ''-01'')"

definition monthOf :: "string \<Rightarrow> string" where
  "monthOf d = take 7 d"

definition monthIndex :: "string \<Rightarrow> nat" where
  "monthIndex s =
     (case parseISODate (take 7 s @ ''-01'') of
        Some (y, m, d) \<Rightarrow> 12 * y + (m - 1)
      | None \<Rightarrow> 0)"

definition monthString :: "nat \<Rightarrow> string" where
  "monthString k = pad4 (k div 12) @ ''-'' @ pad2 (k mod 12 + 1)"

definition monthsFromTo :: "string \<Rightarrow> string \<Rightarrow> string list" where
  "monthsFromTo a b = map monthString [monthIndex a..<Suc (monthIndex b)]"

text \<open>
  The month-start balance in the words of the specification: the \<open>endOfDayBalance\<close> that
  the projection gives the last entry dated before the first day of the month, or
  \<open>initialLeads\<close> when no entry is.
\<close>

definition monthStartBalanceSpec :: "BrokerProfile \<Rightarrow> string \<Rightarrow> int" where
  "monthStartBalanceSpec profile month =
     (let before = filter (\<lambda>r. timeOf (date r) < timeOf (month @ ''-01''))
                     (rev (entriesWithCalculatedBalances profile))
      in if before = [] then initialLeads profile else endOfDayBalance (last before))"

text \<open>A broker with entries in January and March 2024 and none in February.\<close>

definition threeMonthProfile :: BrokerProfile where
  "threeMonthProfile =
     \<lparr>brokerName = ''Eva'', initialLeads = 50, monthlySalesGoal = Some 3,
      dailyEntries = [exampleEntry ''2024-03-10'' 4 1 None 1,
                      exampleEntry ''2024-01-15'' 10 2 (Some 1) 3,
                      exampleEntry ''2024-01-31'' 0 5 None 0,
                      exampleEntry ''2024-03-01'' 2 0 (Some 2) 1]\<rparr>"

text \<open>
  The bulk edit. \<open>fieldValue\<close> reads one of the eleven counters of an entry by its key
  (an absent \<open>repiqueLeads\<close> reads as 0). \<open>emptyBulkForm\<close> is the form as the dialog
  opens it, with the two dates chosen; the example forms are what typing 7, or -1, into
  the field \<open>newLeads\<close> makes of it.
\<close>

definition fieldValue :: "field \<Rightarrow> 'a DailyEntry_scheme \<Rightarrow> int" where
  "fieldValue fld e =
     (case fld of
        NewLeads \<Rightarrow> newLeads e
      | DiscardedLeads \<Rightarrow> discardedLeads e
      | RepiqueLeads \<Rightarrow> orZero (repiqueLeads e)
      | LocalVisits \<Rightarrow> localVisits e
      | ContactingLeads \<Rightarrow> contactingLeads e
      | InProgressLeads \<Rightarrow> inProgressLeads e
      | ScheduledLeads \<Rightarrow> scheduledLeads e
      | NegotiationLeads \<Rightarrow> negotiationLeads e
      | CreditAnalysisLeads \<Rightarrow> creditAnalysisLeads e
      | ApprovedLeads \<Rightarrow> approvedLeads e
      | SignedLeads \<Rightarrow> signedLeads e)"

definition emptyBulkForm :: "string \<Rightarrow> string \<Rightarrow> BulkForm" where
  "emptyBulkForm startDate endDate =
     \<lparr>bulkStartDate = startDate, bulkEndDate = endDate,
      bulkDailyData = Map.empty, bulkErrors = Map.empty\<rparr>"

definition exampleBulkForm :: BulkForm where
  "exampleBulkForm =
     handleBulkNumberChange NewLeads (Num 7) (emptyBulkForm ''2024-01-31'' ''2024-02-01'')"

definition rejectedBulkForm :: BulkForm where
  "rejectedBulkForm =
     handleBulkNumberChange NewLeads (Num (- 1)) (emptyBulkForm ''2024-01-31'' ''2024-02-01'')"

text \<open>
  What the bulk edit of 31 January to 1 February with 7 new leads saves for the broker
  with entries in January and March: the entry of 31 January keeps its 5 discarded leads.
\<close>

definition bulkSavedExample :: "DailyEntry list" where
  "bulkSavedExample =
     [\<lparr>date = ''2024-01-31'', newLeads = 7, discardedLeads = 5, repiqueLeads = Some 0,
       localVisits = 0, contactingLeads = 0, inProgressLeads = 0, scheduledLeads = 0,
       negotiationLeads = 0, creditAnalysisLeads = 0, approvedLeads = 0, signedLeads = 0\<rparr>,
      \<lparr>date = ''2024-02-01'', newLeads = 7, discardedLeads = 0, repiqueLeads = Some 0,
       localVisits = 0, contactingLeads = 0, inProgressLeads = 0, scheduledLeads = 0,
       negotiationLeads = 0, creditAnalysisLeads = 0, approvedLeads = 0, signedLeads = 0\<rparr>]"

text \<open>
  Time zones for the examples. \<open>fixedZone\<close> never changes its clocks. \<open>saoPaulo\<close> is
  three hours behind UTC, and two hours behind during the daylight saving time of the
  summer of 2018/19, from 4 November 2018, 03:00 UTC, to 17 February 2019, 02:00 UTC
  (earlier summers are left out). The local midnight of 4 November did not exist, clocks
  went from 00:00 to 01:00; the hour before the local midnight of 17 February came twice.
\<close>

definition fixedZone :: "int \<Rightarrow> timeZone" where
  "fixedZone tza = (\<lambda>t isUTC. tza)"

definition saoPaulo :: timeZone where
  "saoPaulo t isUTC =
     (if isUTC
      then (if 1541300400000 \<le> t \<and> t < 1550368800000 then - 7200000 else - 10800000)
      else (if 1541293200000 \<le> t \<and> t < 1550361600000 then - 7200000 else - 10800000))"

text \<open>
  The zone \<open>z\<close> stays \<open>off\<close> milliseconds behind UTC from the local time \<open>t0\<close> to the
  local time \<open>t1\<close>: the offset is \<open>- off\<close> at every local time between them and at the
  UTC time that belongs to it.
\<close>

definition steadyOffset :: "timeZone \<Rightarrow> int \<Rightarrow> int \<Rightarrow> int \<Rightarrow> bool" where
  "steadyOffset z off t0 t1 =
     (\<forall>t. t0 \<le> t \<and> t \<le> t1 \<longrightarrow> z t False = - off \<and> z (t + off) True = - off)"

section \<open>The ledger store: adding, updating, entry upsert and delete\<close>

lemma lower_Ana: "toLowerCase ''Ana'' = ''ana''"
  by code_simp

lemma lower_ana: "toLowerCase ''ana'' = ''ana''"
  by code_simp

lemma lower_Ann: "toLowerCase ''Ann'' = ''ann''"
  by code_simp

lemma lower_Bia: "toLowerCase ''Bia'' = ''bia''"
  by code_simp

lemma lower_joao: "toLowerCase joaoCapital = joaoSmall" "toLowerCase joaoSmall = joaoSmall"
  unfolding joaoCapital_def joaoSmall_def by code_simp+

subsection \<open>Lower-casing decides equality of names without regard to case\<close>

lemma of_char_toLowerChar:
  "(of_char (toLowerChar c) :: nat) =
     (let n = of_char c in
      if (65 \<le> n \<and> n \<le> 90) \<or> (192 \<le> n \<and> n \<le> 214) \<or> (216 \<le> n \<and> n \<le> 222)
      then n + 32 else n)"
  by (simp add: toLowerChar_def Let_def)

lemma isCapital_iff:
  "isCapital c \<longleftrightarrow>
     (let n = (of_char c :: nat) in
      (65 \<le> n \<and> n \<le> 90) \<or> (192 \<le> n \<and> n \<le> 214) \<or> (216 \<le> n \<and> n \<le> 222))"
proof -
  have "isCapital c \<longleftrightarrow>
      (\<exists>n \<in> {65 ..< 91} \<union> {192 ..< 215} \<union> {216 ..< 223}. c = char_of (n :: nat))"
    unfolding isCapital_def by (simp only: set_map set_append set_upt image_Un) blast
  also have "\<dots> \<longleftrightarrow> (of_char c :: nat) \<in> {65 ..< 91} \<union> {192 ..< 215} \<union> {216 ..< 223}"
  proof
    assume "\<exists>n \<in> {65 ..< 91} \<union> {192 ..< 215} \<union> {216 ..< 223}. c = char_of (n :: nat)"
    then obtain n :: nat
      where n: "n \<in> {65 ..< 91} \<union> {192 ..< 215} \<union> {216 ..< 223}" "c = char_of n"
      by blast
    then have "n < 256"
      by auto
    then have "of_char c = n"
      by (simp add: n(2))
    with n(1) show "(of_char c :: nat) \<in> {65 ..< 91} \<union> {192 ..< 215} \<union> {216 ..< 223}"
      by simp
  next
    assume "(of_char c :: nat) \<in> {65 ..< 91} \<union> {192 ..< 215} \<union> {216 ..< 223}"
    moreover have "c = char_of (of_char c :: nat)"
      by simp
    ultimately show "\<exists>n \<in> {65 ..< 91} \<union> {192 ..< 215} \<union> {216 ..< 223}. c = char_of (n :: nat)"
      by blast
  qed
  finally show ?thesis
    by (auto simp: Let_def)
qed

text \<open>
  Two characters have the same lower-case form exactly when they are the same letter. This
  is where the table of \<open>toLowerChar\<close> matters: no small letter is a capital, and two
  capitals have two small letters.
\<close>

lemma toLowerChar_sameLetter: "toLowerChar c = toLowerChar d \<longleftrightarrow> sameLetter c d"
proof -
  have lt: "(of_char c :: nat) < 256" "(of_char d :: nat) < 256"
    by simp_all
  have small: "x = smallOf y \<longleftrightarrow> (of_char x :: nat) = (of_char y + 32) mod 256" for x y
    unfolding smallOf_def by (metis of_char_eq_iff of_char_of)
  have "toLowerChar c = toLowerChar d \<longleftrightarrow>
      (of_char (toLowerChar c) :: nat) = of_char (toLowerChar d)"
    by (simp only: of_char_eq_iff)
  also have "\<dots> \<longleftrightarrow> sameLetter c d"
    unfolding sameLetter_def isCapital_iff small of_char_toLowerChar Let_def
    using lt of_char_eq_iff[of c d, where ?'a = nat] by (auto simp: mod_if)
  finally show ?thesis .
qed

lemma toLowerCase_equalIgnoringCase:
  "toLowerCase s = toLowerCase t \<longleftrightarrow> equalIgnoringCase s t"
proof -
  have "toLowerCase s = toLowerCase t \<longleftrightarrow>
      list_all2 (=) (map toLowerChar s) (map toLowerChar t)"
    by (simp add: toLowerCase_def list_all2_eq)
  also have "\<dots> \<longleftrightarrow> list_all2 (\<lambda>c d. toLowerChar c = toLowerChar d) s t"
    by (simp add: list_all2_map1 list_all2_map2)
  finally show ?thesis
    by (simp add: equalIgnoringCase_def toLowerChar_sameLetter)
qed

lemma example_names_compared:
  "equalIgnoringCase ''Ana'' ''ana''" "\<not> equalIgnoringCase ''Ana'' ''Bia''"
  "equalIgnoringCase joaoSmall joaoCapital"
  by (simp_all add: toLowerCase_equalIgnoringCase[symmetric] lower_Ana lower_ana lower_Bia
      lower_joao)

subsection \<open>Adding and updating a broker\<close>

text \<open>
  C7. \<open>handleAddBroker\<close> fails exactly when the name of a stored profile equals the new
  name without regard to case, that is letter by letter with a capital and its small
  letter taken as the same (\<open>equalIgnoringCase\<close>, which does not mention
  \<open>toLowerCase\<close>): it then shows the duplicate-name alert and changes nothing else.
  Otherwise it appends one profile with the given name, initial leads and goal and no
  entries, and shows no alert; the profiles already stored stay as they were. So
  \<open>ana\<close> after \<open>Ana\<close> fails, as does \<open>joaoCapital\<close> after \<open>joaoSmall\<close>, and
  \<open>Bia\<close> after \<open>Ana\<close> is added.
\<close>

theorem add_broker_duplicate_or_append:
  "(let dup = (\<exists>b \<in> set (brokers st). equalIgnoringCase (brokerName b) name);
        st' = handleAddBroker name initLeads goal st
    in (dup \<longrightarrow> st' = st\<lparr>alerts := alerts st @ [DuplicateName]\<rparr>) \<and>
       (\<not> dup \<longrightarrow> st' = st\<lparr>brokers := brokers st @
            [\<lparr>brokerName = name, initialLeads = initLeads,
              monthlySalesGoal = Some goal, dailyEntries = []\<rparr>]\<rparr>) \<and>
       (alerts st' = alerts st @ [DuplicateName] \<longleftrightarrow> dup) \<and>
       (brokers st' = brokers st \<longleftrightarrow> dup))"
  by (simp add: handleAddBroker_def list_ex_iff Let_def toLowerCase_equalIgnoringCase)

theorem add_broker_witness:
  "handleAddBroker ''Ana'' 100 4 emptyStore =
     \<lparr>brokers = [\<lparr>brokerName = ''Ana'', initialLeads = 100, monthlySalesGoal = Some 4,
                  dailyEntries = []\<rparr>], selectedBroker = None, alerts = []\<rparr> \<and>
   handleAddBroker ''ana'' 7 1 (handleAddBroker ''Ana'' 100 4 emptyStore) =
     \<lparr>brokers = [\<lparr>brokerName = ''Ana'', initialLeads = 100, monthlySalesGoal = Some 4,
                  dailyEntries = []\<rparr>], selectedBroker = None, alerts = [DuplicateName]\<rparr> \<and>
   handleAddBroker ''Bia'' 5 2 (handleAddBroker ''Ana'' 100 4 emptyStore) =
     \<lparr>brokers = [\<lparr>brokerName = ''Ana'', initialLeads = 100, monthlySalesGoal = Some 4,
                  dailyEntries = []\<rparr>,
                 \<lparr>brokerName = ''Bia'', initialLeads = 5, monthlySalesGoal = Some 2,
                  dailyEntries = []\<rparr>], selectedBroker = None, alerts = []\<rparr> \<and>
   handleAddBroker joaoCapital 9 3 (handleAddBroker joaoSmall 30 2 emptyStore) =
     \<lparr>brokers = [\<lparr>brokerName = joaoSmall, initialLeads = 30, monthlySalesGoal = Some 2,
                  dailyEntries = []\<rparr>], selectedBroker = None, alerts = [DuplicateName]\<rparr>"
proof -
  have first: "handleAddBroker ''Ana'' 100 4 emptyStore =
     \<lparr>brokers = [\<lparr>brokerName = ''Ana'', initialLeads = 100, monthlySalesGoal = Some 4,
                  dailyEntries = []\<rparr>], selectedBroker = None, alerts = []\<rparr>"
    using add_broker_duplicate_or_append [of emptyStore "''Ana''" 100 4]
    by (simp add: emptyStore_def Let_def)
  have joao: "handleAddBroker joaoSmall 30 2 emptyStore =
     \<lparr>brokers = [\<lparr>brokerName = joaoSmall, initialLeads = 30, monthlySalesGoal = Some 2,
                  dailyEntries = []\<rparr>], selectedBroker = None, alerts = []\<rparr>"
    using add_broker_duplicate_or_append [of emptyStore joaoSmall 30 2]
    by (simp add: emptyStore_def Let_def)
  have second: "handleAddBroker ''ana'' 7 1 (handleAddBroker ''Ana'' 100 4 emptyStore) =
     \<lparr>brokers = [\<lparr>brokerName = ''Ana'', initialLeads = 100, monthlySalesGoal = Some 4,
                  dailyEntries = []\<rparr>], selectedBroker = None, alerts = [DuplicateName]\<rparr>"
    using add_broker_duplicate_or_append
      [of "handleAddBroker ''Ana'' 100 4 emptyStore" "''ana''" 7 1]
    by (simp add: first Let_def example_names_compared)
  have third: "handleAddBroker ''Bia'' 5 2 (handleAddBroker ''Ana'' 100 4 emptyStore) =
     \<lparr>brokers = [\<lparr>brokerName = ''Ana'', initialLeads = 100, monthlySalesGoal = Some 4,
                  dailyEntries = []\<rparr>,
                 \<lparr>brokerName = ''Bia'', initialLeads = 5, monthlySalesGoal = Some 2,
                  dailyEntries = []\<rparr>], selectedBroker = None, alerts = []\<rparr>"
    using add_broker_duplicate_or_append
      [of "handleAddBroker ''Ana'' 100 4 emptyStore" "''Bia''" 5 2]
    by (simp add: first Let_def example_names_compared)
  have fourth: "handleAddBroker joaoCapital 9 3 (handleAddBroker joaoSmall 30 2 emptyStore) =
     \<lparr>brokers = [\<lparr>brokerName = joaoSmall, initialLeads = 30, monthlySalesGoal = Some 2,
                  dailyEntries = []\<rparr>], selectedBroker = None, alerts = [DuplicateName]\<rparr>"
    using add_broker_duplicate_or_append
      [of "handleAddBroker joaoSmall 30 2 emptyStore" joaoCapital 9 3]
    by (simp add: joao Let_def example_names_compared)
  from first second third fourth show ?thesis
    by (simp only: simp_thms)
qed

text \<open>
  C8. When \<open>handleUpdateBroker\<close> succeeds, the store keeps its length and order; a
  profile named \<open>oldName\<close> gets the new name, initial leads and goal and keeps its
  entries, and every other profile is the profile it was.
\<close>

theorem update_broker_frame:
  assumes "handleUpdateBroker oldName newName newLeadsBase newGoal st = (True, st')"
  shows "length (brokers st') = length (brokers st) \<and>
    (\<forall>k < length (brokers st).
       dailyEntries (brokers st' ! k) = dailyEntries (brokers st ! k) \<and>
       (if brokerName (brokers st ! k) = oldName
        then brokers st' ! k =
               (brokers st ! k)\<lparr>brokerName := newName, initialLeads := newLeadsBase,
                                 monthlySalesGoal := Some newGoal\<rparr>
        else brokers st' ! k = brokers st ! k))"
proof -
  from assms
  have "brokers st' = map (applyUpdate oldName newName newLeadsBase newGoal) (brokers st)"
    by (auto simp: handleUpdateBroker_def Let_def split: if_splits)
  then show ?thesis
    by (simp add: applyUpdate_def)
qed

theorem update_broker_frame_witness:
  "handleUpdateBroker ''Ana'' ''Ann'' 7 2 twoBrokers = (True, twoBrokersRenamed) \<and>
   length (brokers twoBrokersRenamed) = 2 \<and>
   dailyEntries (brokers twoBrokersRenamed ! 0) = dailyEntries anaProfile \<and>
   brokerName (brokers twoBrokersRenamed ! 0) = ''Ann'' \<and>
   brokers twoBrokersRenamed ! 1 = biaProfile"
proof -
  have run: "handleUpdateBroker ''Ana'' ''Ann'' 7 2 twoBrokers = (True, twoBrokersRenamed)"
    by (simp add: handleUpdateBroker_def twoBrokers_def twoBrokersRenamed_def applyUpdate_def
        annProfile_def anaProfile_def biaProfile_def lower_Ana lower_Ann lower_Bia)
  have rest: "length (brokers twoBrokersRenamed) = 2 \<and>
     dailyEntries (brokers twoBrokersRenamed ! 0) = dailyEntries anaProfile \<and>
     brokerName (brokers twoBrokersRenamed ! 0) = ''Ann'' \<and>
     brokers twoBrokersRenamed ! 1 = biaProfile"
    by (simp add: twoBrokersRenamed_def annProfile_def)
  from update_broker_frame [OF run] run rest show ?thesis
    by blast
qed

lemma findIndex_ge: "- 1 \<le> findIndex P xs"
  by (induction xs) (auto simp: Let_def)

lemma findIndex_miss: "findIndex P xs = - 1 \<longleftrightarrow> (\<forall>x\<in>set xs. \<not> P x)"
proof (induction xs)
  case Nil
  show ?case by simp
next
  case (Cons a xs)
  have "- 1 \<le> findIndex P xs"
    by (rule findIndex_ge)
  then show ?case
    using Cons by (auto simp: Let_def)
qed

lemma findIndex_hit:
  "findIndex P xs \<noteq> - 1 \<Longrightarrow> \<exists>i. findIndex P xs = int i \<and> i < length xs \<and> P (xs ! i)"
proof (induction xs)
  case Nil
  then show ?case by simp
next
  case (Cons a xs)
  show ?case
  proof (cases "P a")
    case True
    then show ?thesis
      by (intro exI[of _ 0]) simp
  next
    case False
    with Cons.prems have ne: "findIndex P xs \<noteq> - 1"
      by (auto simp: Let_def)
    from Cons.IH[OF ne] obtain i
      where i: "findIndex P xs = int i" "i < length xs" "P (xs ! i)"
      by blast
    show ?thesis
      using False i by (intro exI[of _ "Suc i"]) (simp add: Let_def)
  qed
qed

lemma upsertEntry_dates:
  "map date (upsertEntry e es) =
     (if date e \<in> set (map date es) then map date es else map date es @ [date e])"
proof (cases "findIndex (\<lambda>x. date x = date e) es = - 1")
  case True
  then have "\<forall>x\<in>set es. date x \<noteq> date e"
    by (simp add: findIndex_miss)
  then show ?thesis
    using True by (auto simp: upsertEntry_def)
next
  case False
  from findIndex_hit[OF False] obtain i
    where i: "findIndex (\<lambda>x. date x = date e) es = int i" "i < length es"
      "date (es ! i) = date e"
    by blast
  have "map date (es[i := e]) = map date es"
    using i by (simp add: map_update list_update_same_conv)
  moreover have "date e \<in> set (map date es)"
    using i by (metis length_map nth_map nth_mem)
  ultimately show ?thesis
    using i by (simp add: upsertEntry_def)
qed

lemma upsertEntry_mem: "e \<in> set (upsertEntry e es)"
proof (cases "findIndex (\<lambda>x. date x = date e) es = - 1")
  case True
  then show ?thesis
    by (simp add: upsertEntry_def)
next
  case False
  from findIndex_hit[OF False] obtain i
    where i: "findIndex (\<lambda>x. date x = date e) es = int i" "i < length es"
    by blast
  then show ?thesis
    by (simp add: upsertEntry_def set_update_memI)
qed

lemma distinct_upsertEntry:
  "distinct (map date es) \<Longrightarrow> distinct (map date (upsertEntry e es))"
  by (auto simp: upsertEntry_dates)

lemma distinct_deleteEntry:
  "distinct (map date es) \<Longrightarrow> distinct (map date (filter (\<lambda>x. date x \<noteq> d) es))"
  by (simp add: distinct_map_filter)

lemma updateSelected_distinct:
  assumes f: "\<And>es. distinct (map date es) \<Longrightarrow> distinct (map date (f es))"
    and inv: "entryDatesDistinct st"
  shows "entryDatesDistinct (updateSelected f st)"
proof (cases "selectedBroker st")
  case None
  then show ?thesis
    using inv by (simp add: updateSelected_def)
next
  case (Some sel)
  then show ?thesis
    using inv f by (auto simp: updateSelected_def entryDatesDistinct_def Let_def list_all_iff)
qed

text \<open>
  C9. If no broker of the store has two entries with the same date, the same holds
  after \<open>handleSaveEntry\<close> and after \<open>handleDeleteEntry\<close>. The upsert keeps the dates
  of a broker's entries when the entry's date is among them (the entry saved takes that
  place) and appends the date otherwise, and the entry saved is in the result; after the
  delete no entry carries the deleted date.
\<close>

theorem entry_operations_keep_dates_distinct:
  assumes "entryDatesDistinct st"
  shows "entryDatesDistinct (handleSaveEntry entry st) \<and>
         entryDatesDistinct (handleDeleteEntry d st) \<and>
         map date (upsertEntry entry es) =
           (if date entry \<in> set (map date es) then map date es
            else map date es @ [date entry]) \<and>
         entry \<in> set (upsertEntry entry es) \<and>
         d \<notin> set (map date (filter (\<lambda>e. date e \<noteq> d) es))"
proof -
  have "d \<notin> set (map date (filter (\<lambda>e. date e \<noteq> d) es))"
    by auto
  then show ?thesis
    using assms
    by (simp add: handleSaveEntry_def handleDeleteEntry_def updateSelected_distinct
        distinct_upsertEntry distinct_deleteEntry upsertEntry_dates upsertEntry_mem)
qed

theorem entry_operations_witness:
  "entryDatesDistinct twoBrokers \<and>
   entryDatesDistinct (handleSaveEntry (exampleEntry ''2024-01-01'' 7 0 None 0) twoBrokers) \<and>
   entryDatesDistinct (handleDeleteEntry ''2024-01-02'' twoBrokers) \<and>
   map dailyEntries (brokers (handleSaveEntry (exampleEntry ''2024-01-01'' 7 0 None 0) twoBrokers)) =
     [[exampleEntry ''2024-01-02'' 5 0 (Some 3) 2, exampleEntry ''2024-01-01'' 7 0 None 0], []] \<and>
   map dailyEntries (brokers (handleDeleteEntry ''2024-01-02'' twoBrokers)) =
     [[exampleEntry ''2024-01-01'' 10 2 None 1], []]"
proof -
  have inv: "entryDatesDistinct twoBrokers"
    by (simp add: entryDatesDistinct_def twoBrokers_def anaProfile_def biaProfile_def
        exampleEntry_def)
  have saved: "map dailyEntries
      (brokers (handleSaveEntry (exampleEntry ''2024-01-01'' 7 0 None 0) twoBrokers)) =
     [[exampleEntry ''2024-01-02'' 5 0 (Some 3) 2, exampleEntry ''2024-01-01'' 7 0 None 0], []]"
    by (simp add: handleSaveEntry_def updateSelected_def upsertEntry_def twoBrokers_def
        anaProfile_def biaProfile_def exampleEntry_def Let_def)
  have deleted: "map dailyEntries (brokers (handleDeleteEntry ''2024-01-02'' twoBrokers)) =
     [[exampleEntry ''2024-01-01'' 10 2 None 1], []]"
    by (simp add: handleDeleteEntry_def updateSelected_def twoBrokers_def
        anaProfile_def biaProfile_def exampleEntry_def Let_def)
  from entry_operations_keep_dates_distinct [OF inv] inv saved deleted show ?thesis
    by blast
qed

section \<open>The ranking\<close>

lemma insertBy_insort_key:
  "(\<And>y. y \<in> set ys \<Longrightarrow> (cmp x y \<le> 0) = (key x \<le> key y)) \<Longrightarrow>
   insertBy cmp x ys = insort_key key x ys"
  by (induction ys) auto

lemma jsSort_sort_key:
  "(\<And>x y. x \<in> set xs \<Longrightarrow> y \<in> set xs \<Longrightarrow> (cmp x y \<le> 0) = (key x \<le> key y)) \<Longrightarrow>
   jsSort cmp xs = sort_key key xs"
proof (induction xs)
  case Nil
  show ?case by (simp add: jsSort_def)
next
  case (Cons x xs)
  have IH: "jsSort cmp xs = sort_key key xs"
    by (rule Cons.IH) (simp add: Cons.prems)
  have "insertBy cmp x (sort_key key xs) = insort_key key x (sort_key key xs)"
    by (rule insertBy_insort_key) (simp add: Cons.prems)
  then show ?case
    using IH by (simp add: jsSort_def)
qed

lemma mset_jsSort: "mset (jsSort cmp xs) = mset xs"
proof -
  have ins: "mset (insertBy cmp x ys) = add_mset x (mset ys)" for x ys
    by (induction ys) auto
  show ?thesis
    by (induction xs) (simp_all add: jsSort_def ins)
qed

lemma rankedBrokers_sort_key:
  "rankedBrokers bs =
     sort_key (\<lambda>r. - totalSales r) (filter (\<lambda>r. totalSales r > 0) (map withTotalSales bs))"
  unfolding rankedBrokers_def by (rule jsSort_sort_key) auto

lemma foldl_plus_sum_list: "foldl (\<lambda>acc x. acc + f x) a xs = a + sum_list (map f xs)"
  for a :: int
  by (induction xs arbitrary: a) simp_all

lemma salesExample_ranked:
  "map (\<lambda>r. (brokerName r, totalSales r)) (rankedBrokers salesExample) =
     [(''Eva'', 5), (''Leo'', 5), (''Ivo'', 3)]"
  by (simp add: rankedBrokers_def jsSort_def withTotalSales_def salesExample_def
      exampleEntry_def BrokerProfile.defs)

text \<open>
  C5. \<open>totalSales\<close> of a broker is the sum of \<open>signedLeads\<close> over its entries, and the
  ranked broker is the broker with that field added. The ranking holds exactly the brokers
  with \<open>totalSales > 0\<close> (as a multiset), is sorted by \<open>totalSales\<close> descending, and the
  brokers with any one value of \<open>totalSales\<close> stand in their order in the store. The
  brokers of \<open>salesExample\<close>, with totals 0, 5, 5 and 3, are ranked Eva, Leo, Ivo.
\<close>

theorem ranking_positive_sales_descending_stable:
  "mset (rankedBrokers bs) = mset (filter (\<lambda>r. totalSales r > 0) (map withTotalSales bs)) \<and>
   sorted_wrt (\<lambda>a b. totalSales a \<ge> totalSales b) (rankedBrokers bs) \<and>
   (\<forall>k. filter (\<lambda>r. totalSales r = k) (rankedBrokers bs) =
        filter (\<lambda>r. totalSales r = k) (filter (\<lambda>r. totalSales r > 0) (map withTotalSales bs))) \<and>
   totalSales (withTotalSales b) = sum_list (map signedLeads (dailyEntries b)) \<and>
   BrokerProfile.truncate (withTotalSales b) = b \<and>
   map (\<lambda>r. (brokerName r, totalSales r)) (rankedBrokers salesExample) =
     [(''Eva'', 5), (''Leo'', 5), (''Ivo'', 3)]"
proof -
  let ?pos = "filter (\<lambda>r. totalSales r > 0) (map withTotalSales bs)"
  have perm: "mset (rankedBrokers bs) = mset ?pos"
    by (simp add: rankedBrokers_def mset_jsSort)
  have "sorted (map (\<lambda>r. - totalSales r) (rankedBrokers bs))"
    by (simp add: rankedBrokers_sort_key)
  then have desc: "sorted_wrt (\<lambda>a b. totalSales a \<ge> totalSales b) (rankedBrokers bs)"
    by (simp add: sorted_map)
  have stable: "filter (\<lambda>r. totalSales r = k) (rankedBrokers bs) =
        filter (\<lambda>r. totalSales r = k) ?pos" for k
  proof -
    have "filter (\<lambda>r. - totalSales r = - k) (sort_key (\<lambda>r. - totalSales r) ?pos) =
          filter (\<lambda>r. - totalSales r = - k) ?pos"
      by (rule sort_key_stable)
    then show ?thesis
      by (simp add: rankedBrokers_sort_key)
  qed
  have total: "totalSales (withTotalSales b) = sum_list (map signedLeads (dailyEntries b))"
    by (simp add: withTotalSales_def BrokerProfile.defs foldl_plus_sum_list)
  have same: "BrokerProfile.truncate (withTotalSales b) = b"
    by (simp add: withTotalSales_def BrokerProfile.defs)
  show ?thesis
    using perm desc stable total same salesExample_ranked by blast
qed

section \<open>The import\<close>

lemma itemIsValid_shape: "itemIsValid item = Some True \<longleftrightarrow> itemHasShape item"
  by (cases item)
     (auto simp: itemIsValid_def itemHasShape_def getProp_def isJString_def isJNumber_def
       isJArray_def split: option.splits json.splits)

lemma every_Some_True: "every f xs = Some True \<longleftrightarrow> list_all (\<lambda>x. f x = Some True) xs"
  by (induction xs) (auto split: option.splits bool.splits)

lemma isValid_shape: "isValid data = Some True \<longleftrightarrow> hasBackupShape data"
  by (cases data) (simp_all add: isValid_def hasBackupShape_def every_Some_True itemIsValid_shape)

lemma shape_jsonOfBrokers: "hasBackupShape (jsonOfBrokers bs)"
  by (auto simp: hasBackupShape_def itemHasShape_def jsonOfBrokers_def jsonOfBroker_def
      list_all_iff split: option.splits)

lemma shape_arrayOfStrings: "\<not> hasBackupShape arrayOfStrings"
  by (simp add: hasBackupShape_def itemHasShape_def arrayOfStrings_def)

lemma backups_differ: "storedBackup \<noteq> otherBackup"
  by (simp add: storedBackup_def otherBackup_def jsonOfBrokers_def)

text \<open>
  C6, as stated, fails: a document of the right shape does not replace the store when the
  user answers no to the question \<open>handleFileChange\<close> asks before restoring. Here the
  store \<open>storedBackup\<close> survives the import of \<open>otherBackup\<close>.
\<close>

theorem import_replaces_store_counterexample:
  "hasBackupShape otherBackup \<and>
   handleFileChange (Some otherBackup) False storedBackup = (storedBackup, []) \<and>
   storedBackup \<noteq> otherBackup"
proof -
  have shape: "hasBackupShape otherBackup"
    unfolding otherBackup_def by (rule shape_jsonOfBrokers)
  then have "isValid otherBackup = Some True"
    by (simp add: isValid_shape)
  then have "handleFileChange (Some otherBackup) False storedBackup = (storedBackup, [])"
    by (simp add: handleFileChange_def)
  then show ?thesis
    using shape backups_differ by simp
qed

text \<open>
  C6, amended. A document that does not parse, or whose value does not have the backup
  shape, is rejected whatever the user answers: the store is the store it was and the one
  alert shown is the failure. A document of the backup shape replaces the whole store,
  with the success alert, when the user confirms; when the user declines, the store stays
  and nothing is shown.
\<close>

theorem import_rejects_or_replaces_on_confirm:
  "handleFileChange None confirmed store = (store, [ImportFailed]) \<and>
   (\<not> hasBackupShape data \<longrightarrow>
      handleFileChange (Some data) confirmed store = (store, [ImportFailed])) \<and>
   (hasBackupShape data \<longrightarrow>
      handleFileChange (Some data) True store = (data, [RestoreSucceeded]) \<and>
      handleFileChange (Some data) False store = (store, []))"
proof -
  have none: "handleFileChange None confirmed store = (store, [ImportFailed])"
    by (simp add: handleFileChange_def)
  have bad: "handleFileChange (Some data) confirmed store = (store, [ImportFailed])"
    if "\<not> hasBackupShape data"
  proof -
    from that have "isValid data \<noteq> Some True"
      by (simp add: isValid_shape)
    then show ?thesis
      by (auto simp: handleFileChange_def split: option.splits bool.splits)
  qed
  have good: "handleFileChange (Some data) True store = (data, [RestoreSucceeded]) \<and>
      handleFileChange (Some data) False store = (store, [])"
    if "hasBackupShape data"
  proof -
    from that have v: "isValid data = Some True"
      by (simp add: isValid_shape)
    from that obtain items where "data = JArray items"
      by (cases data) (simp_all add: hasBackupShape_def)
    then show ?thesis
      using v by (simp add: handleFileChange_def handleRestoreBrokers_def isJArray_def)
  qed
  show ?thesis
    using none bad good by blast
qed

theorem import_rejects_or_replaces_witness:
  "\<not> hasBackupShape arrayOfStrings \<and>
   handleFileChange (Some arrayOfStrings) True storedBackup = (storedBackup, [ImportFailed]) \<and>
   hasBackupShape otherBackup \<and>
   handleFileChange (Some otherBackup) True storedBackup = (otherBackup, [RestoreSucceeded]) \<and>
   handleFileChange (Some otherBackup) False storedBackup = (storedBackup, [])"
proof -
  have shape: "hasBackupShape otherBackup"
    unfolding otherBackup_def by (rule shape_jsonOfBrokers)
  show ?thesis
    using import_rejects_or_replaces_on_confirm [of True storedBackup arrayOfStrings]
      import_rejects_or_replaces_on_confirm [of True storedBackup otherBackup]
      shape_arrayOfStrings shape
    by simp
qed

section \<open>The dates of the examples\<close>

lemma char_of_digits:
  "char_of (48::nat) = CHR ''0''" "char_of (49::nat) = CHR ''1''" "char_of (50::nat) = CHR ''2''"
  "char_of (51::nat) = CHR ''3''" "char_of (52::nat) = CHR ''4''" "char_of (53::nat) = CHR ''5''"
  "char_of (54::nat) = CHR ''6''" "char_of (55::nat) = CHR ''7''" "char_of (56::nat) = CHR ''8''"
  "char_of (57::nat) = CHR ''9''"
  by code_simp+

lemma example_parsed:
  "parseISODate ''2024-01-01'' = Some (2024, 1, 1)"
  "parseISODate ''2024-01-02'' = Some (2024, 1, 2)"
  "parseISODate ''2024-01-15'' = Some (2024, 1, 15)"
  "parseISODate ''2024-01-31'' = Some (2024, 1, 31)"
  "parseISODate ''2024-02-01'' = Some (2024, 2, 1)"
  "parseISODate ''2024-03-01'' = Some (2024, 3, 1)"
  "parseISODate ''2024-03-05'' = Some (2024, 3, 5)"
  "parseISODate ''2024-03-10'' = Some (2024, 3, 10)"
  by (simp_all add: parseISODate.simps isDigit_def digitVal_def validCivil_def daysInMonth_def
      isLeapYear_def)

lemma example_times:
  "newDate ''2024-01-01'' = Some 1704067200000"
  "newDate ''2024-01-02'' = Some 1704153600000"
  "newDate ''2024-01-15'' = Some 1705276800000"
  "newDate ''2024-01-31'' = Some 1706659200000"
  "newDate ''2024-02-01'' = Some 1706745600000"
  "newDate ''2024-03-01'' = Some 1709251200000"
  "newDate ''2024-03-05'' = Some 1709596800000"
  "newDate ''2024-03-10'' = Some 1710028800000"
  by (simp_all only: newDate_def example_parsed option.map)
     (simp_all add: daysFromCivil_def daysBeforeYear_def daysBeforeMonth_def daysInMonth_def
       isLeapYear_def msPerDay_def upt_rec)

lemma example_valid:
  "isISODate ''2024-01-01''" "isISODate ''2024-01-02''" "isISODate ''2024-01-15''"
  "isISODate ''2024-01-31''" "isISODate ''2024-02-01''" "isISODate ''2024-03-01''"
  "isISODate ''2024-03-05''" "isISODate ''2024-03-10''"
  by (simp_all only: isISODate_def example_parsed option.distinct not_False_eq_True)

section \<open>The balance projection\<close>

lemma anaProfile_chronological:
  "chronologicalEntries anaProfile =
     [exampleEntry ''2024-01-01'' 10 2 None 1, exampleEntry ''2024-01-02'' 5 0 (Some 3) 2]"
  by (simp add: chronologicalEntries_def jsSort_def byDate_def anaProfile_def exampleEntry_def
      example_times)

lemma anaProfile_projection:
  "map (\<lambda>r. (date r, startOfDayBalance r, endOfDayBalance r))
         (rev (entriesWithCalculatedBalances anaProfile)) =
       [(''2024-01-01'', 100, 107), (''2024-01-02'', 107, 113)]"
  by (simp add: entriesWithCalculatedBalances_def anaProfile_chronological)
     (simp add: anaProfile_def exampleEntry_def withBalance_def DailyEntry.defs orZero_def)

lemma anaProfile_output:
  "map date (entriesWithCalculatedBalances anaProfile) = [''2024-01-02'', ''2024-01-01'']"
  by (simp add: entriesWithCalculatedBalances_def anaProfile_chronological rev_map[symmetric]
      exampleEntry_def withBalance_def DailyEntry.defs Let_def)

lemma anaProfile_valid: "datesValid anaProfile"
  by (simp add: datesValid_def anaProfile_def exampleEntry_def example_valid)

lemma overdrawnProfile_projection:
  "map endOfDayBalance (rev (entriesWithCalculatedBalances overdrawnProfile)) = [- 4]"
  by (simp add: entriesWithCalculatedBalances_def chronologicalEntries_def jsSort_def
      overdrawnProfile_def exampleEntry_def withBalance_def DailyEntry.defs orZero_def)

lemma byDate_timeOf:
  "isISODate (date a) \<Longrightarrow> isISODate (date b) \<Longrightarrow>
   (byDate a b \<le> 0) = (timeOf (date a) \<le> timeOf (date b))"
  by (auto simp: byDate_def timeOf_def isISODate_def newDate_def)

lemma chronological_sort_key:
  assumes "datesValid p"
  shows "chronologicalEntries p = sort_key (\<lambda>e. timeOf (date e)) (dailyEntries p)"
  unfolding chronologicalEntries_def
proof (rule jsSort_sort_key)
  fix x y
  assume "x \<in> set (dailyEntries p)" "y \<in> set (dailyEntries p)"
  with assms have "isISODate (date x)" "isISODate (date y)"
    by (simp_all add: datesValid_def list_all_iff)
  then show "(byDate x y \<le> 0) = (timeOf (date x) \<le> timeOf (date y))"
    by (rule byDate_timeOf)
qed

lemma truncate_withBalance [simp]: "DailyEntry.truncate (withBalance e s t) = e"
  by (simp add: withBalance_def DailyEntry.defs)

lemma withBalance_sel [simp]:
  "date (withBalance e s t) = date e"
  "newLeads (withBalance e s t) = newLeads e"
  "repiqueLeads (withBalance e s t) = repiqueLeads e"
  "discardedLeads (withBalance e s t) = discardedLeads e"
  "signedLeads (withBalance e s t) = signedLeads e"
  "startOfDayBalance (withBalance e s t) = s"
  "endOfDayBalance (withBalance e s t) = t"
  by (simp_all add: withBalance_def DailyEntry.defs)

lemma leadDelta_withBalance [simp]: "leadDelta (withBalance e s t) = leadDelta e"
  by (simp add: leadDelta_def)

lemma entriesWithBalance_Cons:
  "entriesWithBalance b (e # es) =
     withBalance e b (b + leadDelta e) # entriesWithBalance (b + leadDelta e) es"
  by (simp add: Let_def leadDelta_def algebra_simps)

lemma entriesWithBalance_entries [simp]:
  "map DailyEntry.truncate (entriesWithBalance b es) = es"
  by (induction es arbitrary: b) (simp_all add: Let_def)

lemma entriesWithBalance_dates [simp]: "map date (entriesWithBalance b es) = map date es"
  by (induction es arbitrary: b) (simp_all add: Let_def)

lemma length_entriesWithBalance [simp]: "length (entriesWithBalance b es) = length es"
  by (induction es arbitrary: b) (simp_all add: Let_def)

lemma entriesWithBalance_nth:
  "i < length es \<Longrightarrow>
   startOfDayBalance (entriesWithBalance b es ! i) = b + sum_list (map leadDelta (take i es)) \<and>
   endOfDayBalance (entriesWithBalance b es ! i) = b + sum_list (map leadDelta (take (Suc i) es)) \<and>
   leadDelta (entriesWithBalance b es ! i) = leadDelta (es ! i)"
proof (induction es arbitrary: b i)
  case Nil
  then show ?case by simp
next
  case (Cons e es)
  show ?case
  proof (cases i)
    case 0
    then show ?thesis
      by (simp add: entriesWithBalance_Cons del: entriesWithBalance.simps)
  next
    case (Suc j)
    with Cons.prems have "j < length es" by simp
    from Cons.IH[OF this, of "b + leadDelta e"] show ?thesis
      using Suc by (simp add: entriesWithBalance_Cons del: entriesWithBalance.simps)
  qed
qed

text \<open>
  C1. Read the list that \<open>entriesWithCalculatedBalances\<close> returns from its last
  element to its first, that is in the order in which the balances were computed. It
  holds the broker's entries (each once, as a multiset), and ascending by date when the
  entries carry calendar dates; the first \<open>startOfDayBalance\<close> is \<open>initialLeads\<close>,
  every later one is the \<open>endOfDayBalance\<close> before it, and every \<open>endOfDayBalance\<close> is
  the \<open>startOfDayBalance\<close> plus \<open>newLeads\<close> plus \<open>repiqueLeads\<close> (0 when absent)
  minus \<open>discardedLeads\<close> minus \<open>signedLeads\<close>. The worked example gives 100, 107 and
  107, 113, and a balance below zero is kept as it is.
\<close>

theorem balance_projection_sorts_and_folds:
  "(let chron = rev (entriesWithCalculatedBalances p) in
     chron = entriesWithBalance (initialLeads p) (chronologicalEntries p) \<and>
     mset (map DailyEntry.truncate chron) = mset (dailyEntries p) \<and>
     (datesValid p \<longrightarrow> sorted (map (\<lambda>e. timeOf (date e)) chron)) \<and>
     (\<forall>i < length chron.
        startOfDayBalance (chron ! i) =
          (if i = 0 then initialLeads p else endOfDayBalance (chron ! (i - 1))) \<and>
        endOfDayBalance (chron ! i) =
          startOfDayBalance (chron ! i) + newLeads (chron ! i) + orZero (repiqueLeads (chron ! i))
            - discardedLeads (chron ! i) - signedLeads (chron ! i))) \<and>
   map (\<lambda>r. (date r, startOfDayBalance r, endOfDayBalance r))
       (rev (entriesWithCalculatedBalances anaProfile)) =
     [(''2024-01-01'', 100, 107), (''2024-01-02'', 107, 113)] \<and>
   map endOfDayBalance (rev (entriesWithCalculatedBalances overdrawnProfile)) = [- 4]"
proof -
  define chron where "chron = rev (entriesWithCalculatedBalances p)"
  have eq: "chron = entriesWithBalance (initialLeads p) (chronologicalEntries p)"
    by (simp add: chron_def entriesWithCalculatedBalances_def)
  have perm: "mset (map DailyEntry.truncate chron) = mset (dailyEntries p)"
    by (simp add: eq chronologicalEntries_def mset_jsSort)
  have "map (\<lambda>e. timeOf (date e)) chron = map timeOf (map date chron)"
    by simp
  also have "\<dots> = map (\<lambda>e. timeOf (date e)) (chronologicalEntries p)"
    by (simp add: eq)
  finally have srt: "sorted (map (\<lambda>e. timeOf (date e)) chron)" if "datesValid p"
    by (simp add: chronological_sort_key[OF that])
  have bal: "startOfDayBalance (chron ! i) =
          (if i = 0 then initialLeads p else endOfDayBalance (chron ! (i - 1))) \<and>
        endOfDayBalance (chron ! i) =
          startOfDayBalance (chron ! i) + newLeads (chron ! i) + orZero (repiqueLeads (chron ! i))
            - discardedLeads (chron ! i) - signedLeads (chron ! i)"
    if "i < length chron" for i
  proof -
    let ?es = "chronologicalEntries p"
    from that have i: "i < length ?es" by (simp add: eq)
    note n = entriesWithBalance_nth[OF i, of "initialLeads p"]
    have step: "sum_list (map leadDelta (take (Suc i) ?es)) =
        sum_list (map leadDelta (take i ?es)) + leadDelta (?es ! i)"
      using i by (simp add: take_Suc_conv_app_nth)
    have prev: "endOfDayBalance (chron ! (i - 1)) =
        initialLeads p + sum_list (map leadDelta (take i ?es))" if "i \<noteq> 0"
    proof -
      from that i have "i - 1 < length ?es" "Suc (i - 1) = i" by simp_all
      with entriesWithBalance_nth[of "i - 1" ?es "initialLeads p"] show ?thesis
        by (simp add: eq)
    qed
    have "leadDelta (chron ! i) = leadDelta (?es ! i)"
      using n by (simp add: eq)
    then show ?thesis
      using n step prev unfolding eq by (auto simp: leadDelta_def)
  qed
  show ?thesis
    unfolding Let_def chron_def[symmetric]
    using eq perm srt bal anaProfile_projection overdrawnProfile_projection by blast
qed

theorem balance_projection_witness:
  "datesValid anaProfile \<and>
   sorted (map (\<lambda>e. timeOf (date e)) (rev (entriesWithCalculatedBalances anaProfile))) \<and>
   mset (map DailyEntry.truncate (rev (entriesWithCalculatedBalances anaProfile))) =
     mset (dailyEntries anaProfile) \<and>
   map (\<lambda>r. (date r, startOfDayBalance r, endOfDayBalance r))
       (rev (entriesWithCalculatedBalances anaProfile)) =
     [(''2024-01-01'', 100, 107), (''2024-01-02'', 107, 113)]"
  using balance_projection_sorts_and_folds [of anaProfile] anaProfile_valid
  unfolding Let_def by blast

lemma sorted_by_date_map:
  "sorted_wrt (\<lambda>a b. timeOf (date a) \<le> timeOf (date b)) xs =
   sorted (map timeOf (map date xs))"
  by (simp add: sorted_map comp_def)

lemma chronological_sorted:
  assumes "datesValid p"
  shows "sorted_wrt (\<lambda>a b. timeOf (date a) \<le> timeOf (date b))
           (entriesWithBalance b (chronologicalEntries p))"
proof -
  have "sorted (map (\<lambda>e. timeOf (date e)) (chronologicalEntries p))"
    by (simp add: chronological_sort_key[OF assms])
  then have "sorted (map timeOf (map date (chronologicalEntries p)))"
    by (simp add: comp_def)
  then show ?thesis
    unfolding sorted_by_date_map by simp
qed

text \<open>
  C4, as stated, fails: the list \<open>entriesWithCalculatedBalances\<close> returns for the broker
  of the worked example starts with the later day.
\<close>

theorem projection_output_most_recent_first_counterexample:
  "datesValid anaProfile \<and>
   map date (entriesWithCalculatedBalances anaProfile) = [''2024-01-02'', ''2024-01-01''] \<and>
   timeOf ''2024-01-01'' < timeOf ''2024-01-02'' \<and>
   \<not> sorted_wrt (\<lambda>a b. timeOf (date a) \<le> timeOf (date b))
        (entriesWithCalculatedBalances anaProfile)"
proof -
  have t: "timeOf ''2024-01-01'' < timeOf ''2024-01-02''"
    by (simp add: timeOf_def example_times)
  have "\<not> sorted (map timeOf (map date (entriesWithCalculatedBalances anaProfile)))"
    using t by (simp add: anaProfile_output)
  then have "\<not> sorted_wrt (\<lambda>a b. timeOf (date a) \<le> timeOf (date b))
        (entriesWithCalculatedBalances anaProfile)"
    unfolding sorted_by_date_map .
  then show ?thesis
    using t anaProfile_valid anaProfile_output by simp
qed

text \<open>
  C4, amended. For a broker whose entries carry calendar dates, the list the projection
  returns is in descending order of date, most recent first: the projection reverses the
  chronological list itself. The chronological order is what a caller gets by reversing
  it, as the CSV export does.
\<close>

theorem projection_output_descending_csv_reverses:
  assumes "datesValid p"
  shows "sorted_wrt (\<lambda>a b. timeOf (date b) \<le> timeOf (date a)) (entriesWithCalculatedBalances p) \<and>
         csvChronologicalEntries p = rev (entriesWithCalculatedBalances p) \<and>
         sorted_wrt (\<lambda>a b. timeOf (date a) \<le> timeOf (date b)) (csvChronologicalEntries p)"
  using chronological_sorted [OF assms, of "initialLeads p"]
  by (simp add: csvChronologicalEntries_def entriesWithCalculatedBalances_def sorted_wrt_rev)

theorem projection_output_descending_witness:
  "datesValid anaProfile \<and>
   sorted_wrt (\<lambda>a b. timeOf (date b) \<le> timeOf (date a)) (entriesWithCalculatedBalances anaProfile) \<and>
   map date (entriesWithCalculatedBalances anaProfile) = [''2024-01-02'', ''2024-01-01''] \<and>
   map date (csvChronologicalEntries anaProfile) = [''2024-01-01'', ''2024-01-02'']"
proof -
  have "map date (csvChronologicalEntries anaProfile) =
      rev (map date (entriesWithCalculatedBalances anaProfile))"
    using projection_output_descending_csv_reverses [OF anaProfile_valid]
    by (simp add: rev_map)
  then show ?thesis
    using projection_output_descending_csv_reverses [OF anaProfile_valid] anaProfile_valid
    by (simp add: anaProfile_output)
qed

section \<open>Calendar dates and their strings\<close>

lemma digitChar_digitVal: "isDigit c \<Longrightarrow> digitChar (digitVal c) = c"
  by (simp add: isDigit_def digitChar_def digitVal_def)

lemma digitVal_lt: "isDigit c \<Longrightarrow> digitVal c < 10"
  by (auto simp: isDigit_def digitVal_def)

lemma digitVal_digitChar: "n < 10 \<Longrightarrow> digitVal (digitChar n) = n"
  by (simp add: digitChar_def digitVal_def)

lemma isDigit_digitChar: "n < 10 \<Longrightarrow> isDigit (digitChar n)"
  by (simp add: digitChar_def isDigit_def)

lemma digitChar_less: "a < 10 \<Longrightarrow> b < 10 \<Longrightarrow> (digitChar a < digitChar b) = (a < b)"
  by (simp add: digitChar_def less_char_def)

lemma digitChar_eq: "a < 10 \<Longrightarrow> b < 10 \<Longrightarrow> (digitChar a = digitChar b) = (a = b)"
  by (metis digitVal_digitChar)

lemma pad2_digits: "a < 10 \<Longrightarrow> b < 10 \<Longrightarrow> pad2 (10 * a + b) = [digitChar a, digitChar b]"
  by (simp add: pad2_def)

lemma digits_div_100:
  "b < 10 \<Longrightarrow> c < 10 \<Longrightarrow> d < 10 \<Longrightarrow> (1000 * a + 100 * b + 10 * c + d) div 100 mod 10 = (b::nat)"
proof -
  assume d: "b < 10" "c < 10" "d < 10"
  have "1000 * a + 100 * b + 10 * c + d = (10 * c + d) + (10 * a + b) * 100" by simp
  then have "(1000 * a + 100 * b + 10 * c + d) div 100 = 10 * a + b"
    using d by (simp only: div_mult_self1, (simp)?)
  moreover have "10 * a + b = b + 10 * a" by simp
  ultimately show ?thesis using d by (simp only: mod_mult_self2, (simp)?)
qed

lemma digits_div_10:
  "c < 10 \<Longrightarrow> d < 10 \<Longrightarrow> (1000 * a + 100 * b + 10 * c + d) div 10 mod 10 = (c::nat)"
proof -
  assume d: "c < 10" "d < 10"
  have "1000 * a + 100 * b + 10 * c + d = d + (100 * a + 10 * b + c) * 10" by simp
  then have "(1000 * a + 100 * b + 10 * c + d) div 10 = 100 * a + 10 * b + c"
    using d by (simp only: div_mult_self1, (simp)?)
  moreover have "100 * a + 10 * b + c = c + 10 * (10 * a + b)" by simp
  ultimately show ?thesis using d by (simp only: mod_mult_self2, (simp)?)
qed

lemma digits_div_1000:
  "b < 10 \<Longrightarrow> c < 10 \<Longrightarrow> d < 10 \<Longrightarrow> (1000 * a + 100 * b + 10 * c + d) div 1000 = (a::nat)"
  by simp

lemma digits_mod_10: "d < 10 \<Longrightarrow> (1000 * a + 100 * b + 10 * c + d) mod 10 = (d::nat)"
proof -
  assume d: "d < 10"
  have "1000 * a + 100 * b + 10 * c + d = d + 10 * (100 * a + 10 * b + c)" by simp
  then show ?thesis using d by (simp only: mod_mult_self2, (simp)?)
qed

lemma pad4_digits:
  "a < 10 \<Longrightarrow> b < 10 \<Longrightarrow> c < 10 \<Longrightarrow> d < 10 \<Longrightarrow>
   pad4 (1000 * a + 100 * b + 10 * c + d) = [digitChar a, digitChar b, digitChar c, digitChar d]"
  by (simp only: pad4_def digits_div_1000 digits_div_100 digits_div_10 digits_mod_10)

lemma parseISODate_format:
  assumes "parseISODate s = Some c"
  shows "s = formatISODate c \<and> validCivil c"
proof -
  from assms obtain y1 y2 y3 y4 s1 m1 m2 s2 d1 d2
    where s: "s = [y1, y2, y3, y4, s1, m1, m2, s2, d1, d2]"
    by (cases s rule: parseISODate.cases) (auto simp: parseISODate.simps)
  with assms have dig: "isDigit y1" "isDigit y2" "isDigit y3" "isDigit y4" "isDigit m1" "isDigit m2"
      "isDigit d1" "isDigit d2" and sep: "s1 = CHR ''-''" "s2 = CHR ''-''"
    by (auto simp: parseISODate.simps split: if_splits)
  from s assms dig sep have c: "c = (1000 * digitVal y1 + 100 * digitVal y2 + 10 * digitVal y3 + digitVal y4,
                  10 * digitVal m1 + digitVal m2, 10 * digitVal d1 + digitVal d2)" and v: "validCivil c"
    by (auto simp: parseISODate.simps Let_def split: if_splits)
  show ?thesis
    using v unfolding c formatISODate_def s
    by (simp add: pad4_digits pad2_digits digitVal_lt dig digitChar_digitVal sep)
qed


lemma digits_of_nat:
  "1000 * (n div 1000) + 100 * (n div 100 mod 10) + 10 * (n div 10 mod 10) + n mod 10 = (n::nat)"
proof -
  have a: "n = 10 * (n div 10) + n mod 10" by simp
  have b: "n div 10 = 10 * (n div 10 div 10) + n div 10 mod 10" by simp
  have c: "n div 100 = 10 * (n div 100 div 10) + n div 100 mod 10" by simp
  have b': "n div 10 div 10 = n div 100" by (simp add: div_mult2_eq[symmetric])
  have c': "n div 100 div 10 = n div 1000" by (simp add: div_mult2_eq[symmetric])
  show ?thesis using a b c b' c' by linarith
qed

lemma lex2:
  "a2 < 10 \<Longrightarrow> b2 < 10 \<Longrightarrow>
   (a1 < b1 \<or> a1 = b1 \<and> a2 < b2) = (10 * a1 + a2 < 10 * b1 + (b2::nat))"
  by linarith

lemma lex4:
  "a2 < 10 \<Longrightarrow> a3 < 10 \<Longrightarrow> a4 < 10 \<Longrightarrow> b2 < 10 \<Longrightarrow> b3 < 10 \<Longrightarrow> b4 < 10 \<Longrightarrow>
   (a1 < b1 \<or> a1 = b1 \<and> (a2 < b2 \<or> a2 = b2 \<and> (a3 < b3 \<or> a3 = b3 \<and> a4 < b4))) =
   (1000 * a1 + 100 * a2 + 10 * a3 + a4 < 1000 * b1 + 100 * b2 + 10 * b3 + (b4::nat))"
  by linarith

lemma append_less_same_length:
  "length xs = length ys \<Longrightarrow> (xs @ us < ys @ vs) = (xs < ys \<or> xs = ys \<and> us < vs)"
  for xs :: "'a::linorder list"
  by (induction xs ys rule: list_induct2) auto

lemma pad4_less:
  assumes "y < 10000" "y' < 10000"
  shows "(pad4 y < pad4 y') = (y < y')"
proof -
  have b: "y div 1000 < 10" "y' div 1000 < 10"
    using assms by simp_all
  have "(pad4 y < pad4 y') =
      (y div 1000 < y' div 1000 \<or> y div 1000 = y' div 1000 \<and>
        (y div 100 mod 10 < y' div 100 mod 10 \<or> y div 100 mod 10 = y' div 100 mod 10 \<and>
          (y div 10 mod 10 < y' div 10 mod 10 \<or> y div 10 mod 10 = y' div 10 mod 10 \<and>
            y mod 10 < y' mod 10)))"
    by (simp add: pad4_def digitChar_less digitChar_eq b)
  also have "\<dots> = (1000 * (y div 1000) + 100 * (y div 100 mod 10) + 10 * (y div 10 mod 10) + y mod 10
      < 1000 * (y' div 1000) + 100 * (y' div 100 mod 10) + 10 * (y' div 10 mod 10) + y' mod 10)"
    by (rule lex4) simp_all
  finally show ?thesis
    by (simp only: digits_of_nat)
qed

lemma pad4_eq:
  assumes "y < 10000" "y' < 10000"
  shows "(pad4 y = pad4 y') = (y = y')"
proof
  assume "pad4 y = pad4 y'"
  then have "\<not> pad4 y < pad4 y'" "\<not> pad4 y' < pad4 y"
    by simp_all
  then show "y = y'"
    using assms by (simp add: pad4_less)
qed simp

lemma pad2_less:
  assumes "m < 100" "m' < 100"
  shows "(pad2 m < pad2 m') = (m < m')"
proof -
  have b: "m div 10 < 10" "m' div 10 < 10"
    using assms by simp_all
  have "(pad2 m < pad2 m') =
      (m div 10 < m' div 10 \<or> m div 10 = m' div 10 \<and> m mod 10 < m' mod 10)"
    by (simp add: pad2_def digitChar_less digitChar_eq b)
  also have "\<dots> = (10 * (m div 10) + m mod 10 < 10 * (m' div 10) + m' mod 10)"
    by (rule lex2) simp_all
  finally show ?thesis
    by simp
qed

lemma pad2_eq:
  assumes "m < 100" "m' < 100"
  shows "(pad2 m = pad2 m') = (m = m')"
proof
  assume "pad2 m = pad2 m'"
  then have "\<not> pad2 m < pad2 m'" "\<not> pad2 m' < pad2 m"
    by simp_all
  then show "m = m'"
    using assms by (simp add: pad2_less)
qed simp

lemma daysInMonth_le: "daysInMonth y m \<le> 31"
  by (simp add: daysInMonth_def)

lemma validCivil_bounds:
  "validCivil (y, m, d) \<Longrightarrow> y < 10000 \<and> m < 100 \<and> d < 100"
  using daysInMonth_le[of y m] by (simp add: validCivil_def)

text \<open>The strings of two calendar dates compare as the dates do, field by field.\<close>

lemma formatISODate_less:
  assumes "validCivil (y, m, d)" "validCivil (y', m', d')"
  shows "(formatISODate (y, m, d) < formatISODate (y', m', d')) =
         (y < y' \<or> y = y' \<and> (m < m' \<or> m = m' \<and> d < d'))"
proof -
  note b = validCivil_bounds[OF assms(1)] validCivil_bounds[OF assms(2)]
  have l4: "length (pad4 y) = length (pad4 y')" and l2: "length (pad2 m) = length (pad2 m')"
    by (simp_all add: pad4_def pad2_def)
  show ?thesis
    unfolding formatISODate_def prod.case
    by (simp add: append_less_same_length[OF l4] append_less_same_length[OF l2]
        pad4_less pad4_eq pad2_less pad2_eq b)
qed

lemma ceil_div_step:
  assumes "0 < k"
  shows "(Suc y + (k - 1)) div k = (y + (k - 1)) div k + (if y mod k = 0 then 1 else 0)"
proof -
  have up: "(Suc y + (k - 1)) div k = y div k + 1"
    using assms by simp
  have "(y + (k - 1)) div k = y div k + (if y mod k = 0 then 0 else 1)"
  proof -
    have "y + (k - 1) = (y mod k + (k - 1)) + (y div k) * k"
      by simp
    then have "(y + (k - 1)) div k = (y mod k + (k - 1)) div k + y div k"
      using assms by (simp only: div_mult_self1, (simp)?)
    moreover have "(y mod k + (k - 1)) div k = (if y mod k = 0 then 0 else 1)"
    proof (cases "y mod k = 0")
      case True
      then show ?thesis using assms by simp
    next
      case False
      have "y mod k < k" using assms by simp
      with False have "k \<le> y mod k + (k - 1)" "y mod k + (k - 1) < 2 * k"
        by linarith+
      then have "(y mod k + (k - 1)) div k = 1"
        by (intro div_nat_eqI) simp_all
      with False show ?thesis by simp
    qed
    ultimately show ?thesis by simp
  qed
  with up show ?thesis by simp
qed

lemma daysBeforeYear_Suc:
  "daysBeforeYear (Suc y) = daysBeforeYear y + (if isLeapYear y then 366 else 365)"
proof -
  have s4: "(Suc y + 3) div 4 = (y + 3) div 4 + (if y mod 4 = 0 then 1 else 0)"
    using ceil_div_step[of 4 y] by simp
  have s100: "(Suc y + 99) div 100 = (y + 99) div 100 + (if y mod 100 = 0 then 1 else 0)"
    using ceil_div_step[of 100 y] by simp
  have s400: "(Suc y + 399) div 400 = (y + 399) div 400 + (if y mod 400 = 0 then 1 else 0)"
    using ceil_div_step[of 400 y] by simp
  have d1: "y mod 4 = 0" if "y mod 100 = 0"
  proof -
    have "(4::nat) dvd 100" by simp
    moreover from that have "100 dvd y" by (simp add: mod_eq_0_iff_dvd)
    ultimately have "4 dvd y" by (rule dvd_trans)
    then show ?thesis by (simp add: mod_eq_0_iff_dvd)
  qed
  have d2: "y mod 100 = 0" if "y mod 400 = 0"
  proof -
    have "(100::nat) dvd 400" by simp
    moreover from that have "400 dvd y" by (simp add: mod_eq_0_iff_dvd)
    ultimately have "100 dvd y" by (rule dvd_trans)
    then show ?thesis by (simp add: mod_eq_0_iff_dvd)
  qed
  have "daysBeforeYear (Suc y) =
      daysBeforeYear y + 365 + (if y mod 4 = 0 then 1 else 0) - (if y mod 100 = 0 then 1 else 0)
        + (if y mod 400 = 0 then 1 else 0)"
    unfolding daysBeforeYear_def s4 s100 s400 by simp
  then show ?thesis
    unfolding isLeapYear_def using d1 d2 by (cases "y mod 4 = 0"; cases "y mod 100 = 0"; cases "y mod 400 = 0") simp_all
qed


lemma daysBeforeYear_mono: "y \<le> y' \<Longrightarrow> daysBeforeYear y \<le> daysBeforeYear y'"
proof (induction y' rule: nat_induct)
  case 0
  then show ?case by simp
next
  case (Suc n)
  show ?case
  proof (cases "y = Suc n")
    case True
    then show ?thesis by simp
  next
    case False
    with Suc.prems have "y \<le> n" by simp
    from Suc.IH[OF this] show ?thesis
      by (simp add: daysBeforeYear_Suc)
  qed
qed

lemma daysBeforeYear_le: "daysBeforeYear y \<le> 366 * int y"
  by (induction y) (simp_all add: daysBeforeYear_def daysBeforeYear_Suc)

lemma daysBeforeMonth_Suc: "1 \<le> m \<Longrightarrow> daysBeforeMonth y (Suc m) = daysBeforeMonth y m + daysInMonth y m"
  by (simp add: daysBeforeMonth_def)

lemma daysBeforeMonth_mono: "m \<le> n \<Longrightarrow> daysBeforeMonth y m \<le> daysBeforeMonth y n"
proof (induction n rule: nat_induct)
  case 0
  then show ?case by simp
next
  case (Suc n)
  show ?case
  proof (cases "m = Suc n")
    case True
    then show ?thesis by simp
  next
    case False
    with Suc.prems have le: "m \<le> n" by simp
    show ?thesis
    proof (cases "1 \<le> n")
      case True
      with Suc.IH[OF le] show ?thesis by (simp add: daysBeforeMonth_Suc)
    next
      case False
      then show ?thesis using le by (simp add: daysBeforeMonth_def)
    qed
  qed
qed

lemma daysBeforeMonth_13: "daysBeforeMonth y 13 = (if isLeapYear y then 366 else 365)"
proof -
  have "[1..<13] = [1, 2, 3, 4, 5, 6, 7, 8, 9, 10, 11, 12::nat]"
    by (simp add: upt_rec)
  then show ?thesis
    by (simp add: daysBeforeMonth_def daysInMonth_def)
qed

lemma dayOfYear_le:
  assumes "validCivil (y, m, d)"
  shows "daysBeforeMonth y m + d \<le> (if isLeapYear y then 366 else 365)"
proof -
  from assms have m: "1 \<le> m" "Suc m \<le> 13" and d: "d \<le> daysInMonth y m"
    by (simp_all add: validCivil_def)
  have "daysBeforeMonth y m + d \<le> daysBeforeMonth y (Suc m)"
    using m d by (simp add: daysBeforeMonth_Suc)
  also have "\<dots> \<le> daysBeforeMonth y 13"
    using m(2) by (rule daysBeforeMonth_mono)
  finally show ?thesis
    by (simp only: daysBeforeMonth_13)
qed

lemma civilLess_cases: "civilLess c c' \<or> c = c' \<or> civilLess c' c"
  by (cases c; cases c') (auto simp: civilLess_def)

lemma daysFromCivil_strict_mono:
  assumes v: "validCivil c" "validCivil c'" and lt: "civilLess c c'"
  shows "daysFromCivil c < daysFromCivil c'"
proof -
  obtain y m d y' m' d' where c: "c = (y, m, d)" "c' = (y', m', d')"
    by (cases c; cases c') auto
  from v have m: "1 \<le> m" "1 \<le> m'" and d: "1 \<le> d" "d \<le> daysInMonth y m" "1 \<le> d'"
    by (simp_all add: validCivil_def c)
  from lt consider (year) "y < y'" | (month) "y = y'" "m < m'" | (day) "y = y'" "m = m'" "d < d'"
    by (auto simp: civilLess_def c)
  then show ?thesis
  proof cases
    case year
    have "int (daysBeforeMonth y m + d) \<le> (if isLeapYear y then 366 else 365)"
      using dayOfYear_le[OF v(1)[unfolded c]] by (simp split: if_splits)
    then have "daysBeforeYear y + int (daysBeforeMonth y m + d) \<le> daysBeforeYear (Suc y)"
      by (simp add: daysBeforeYear_Suc)
    also have "\<dots> \<le> daysBeforeYear y'"
      using year by (intro daysBeforeYear_mono) simp
    finally show ?thesis
      using d by (simp add: daysFromCivil_def c)
  next
    case month
    have "daysBeforeMonth y m + d \<le> daysBeforeMonth y (Suc m)"
      using m d by (simp add: daysBeforeMonth_Suc)
    also have "\<dots> \<le> daysBeforeMonth y m'"
      using month by (intro daysBeforeMonth_mono) simp
    finally show ?thesis
      using d month by (simp add: daysFromCivil_def c)
  next
    case day
    then show ?thesis by (simp add: daysFromCivil_def c)
  qed
qed

lemma daysFromCivil_less:
  assumes "validCivil c" "validCivil c'"
  shows "(daysFromCivil c < daysFromCivil c') = civilLess c c'"
  using civilLess_cases[of c c'] daysFromCivil_strict_mono[OF assms]
    daysFromCivil_strict_mono[OF assms(2) assms(1)]
  by auto

lemma daysFromCivil_inj:
  assumes "validCivil c" "validCivil c'" "daysFromCivil c = daysFromCivil c'"
  shows "c = c'"
  using civilLess_cases[of c c'] daysFromCivil_strict_mono[OF assms(1,2)]
    daysFromCivil_strict_mono[OF assms(2) assms(1)] assms(3)
  by auto

lemma parseISODate_formatISODate:
  assumes "validCivil c"
  shows "parseISODate (formatISODate c) = Some c"
proof -
  obtain y m d where c: "c = (y, m, d)"
    by (cases c) auto
  note b = validCivil_bounds[OF assms[unfolded c]]
  have dig: "y div 1000 < 10" "m div 10 < 10" "d div 10 < 10"
    using b by auto
  have two: "10 * (m div 10) + m mod 10 = m" "10 * (d div 10) + d mod 10 = d"
    by simp_all
  show ?thesis
    using assms unfolding c formatISODate_def pad4_def pad2_def
    by (simp add: parseISODate.simps isDigit_digitChar digitVal_digitChar dig digits_of_nat two
        del: mult_div_mod_eq div_mult_mod_eq)
qed

lemma isISODate_civil:
  assumes "isISODate s"
  obtains c where "parseISODate s = Some c" "s = formatISODate c" "validCivil c"
    "timeOf s = daysFromCivil c * msPerDay"
proof -
  from assms obtain c where c: "parseISODate s = Some c"
    by (auto simp: isISODate_def)
  from parseISODate_format[OF c] c show ?thesis
    by (intro that[of c]) (simp_all add: timeOf_def newDate_def)
qed

lemma civilLess_format:
  assumes "validCivil c" "validCivil c'"
  shows "(formatISODate c < formatISODate c') = civilLess c c'"
proof -
  obtain y m d y' m' d' where c: "c = (y, m, d)" "c' = (y', m', d')"
    by (cases c; cases c') auto
  show ?thesis
    using formatISODate_less[OF assms[unfolded c]] by (simp add: c civilLess_def)
qed

text \<open>On calendar dates, the order of the strings is the order of the time values.\<close>

lemma isISODate_less:
  assumes "isISODate a" "isISODate b"
  shows "(a < b) = (timeOf a < timeOf b)"
proof -
  from assms(1) obtain c where c: "a = formatISODate c" "validCivil c"
    "timeOf a = daysFromCivil c * msPerDay"
    by (rule isISODate_civil)
  from assms(2) obtain c' where c': "b = formatISODate c'" "validCivil c'"
    "timeOf b = daysFromCivil c' * msPerDay"
    by (rule isISODate_civil)
  have "(a < b) = civilLess c c'"
    by (simp add: c c' civilLess_format)
  also have "\<dots> = (daysFromCivil c < daysFromCivil c')"
    by (simp add: daysFromCivil_less c c')
  also have "\<dots> = (timeOf a < timeOf b)"
    unfolding c(3) c'(3) by (simp add: msPerDay_def)
  finally show ?thesis .
qed

section \<open>The monthly summary\<close>

lemma pad2_1: "pad2 1 = ''01''"
  by (simp add: pad2_def digitChar_def char_of_digits)

lemma length_pad4 [simp]: "length (pad4 n) = 4"
  by (simp add: pad4_def)

lemma length_pad2 [simp]: "length (pad2 n) = 2"
  by (simp add: pad2_def)

lemma validCivil_first: "validCivil (y, m, d) \<Longrightarrow> validCivil (y, m, 1)"
  by (simp add: validCivil_def daysInMonth_def)

lemma take7_format: "take 7 (formatISODate (y, m, d)) = pad4 y @ ''-'' @ pad2 m"
  by (simp add: formatISODate_def)

lemma format_first: "formatISODate (y, m, 1) = (pad4 y @ ''-'' @ pad2 m) @ ''-01''"
  unfolding formatISODate_def prod.case pad2_1 by simp

lemma monthIndex_date:
  assumes "parseISODate s = Some (y, m, d)"
  shows "monthIndex s = 12 * y + (m - 1)"
proof -
  from parseISODate_format[OF assms] have s: "s = formatISODate (y, m, d)" and v: "validCivil (y, m, d)"
    by simp_all
  have "take 7 s @ ''-01'' = formatISODate (y, m, 1)"
    by (simp only: s take7_format format_first)
  then show ?thesis
    using parseISODate_formatISODate[OF validCivil_first[OF v]] by (simp add: monthIndex_def)
qed

lemma isISOMonth_parts:
  assumes "isISOMonth mo"
  obtains y m where "mo = pad4 y @ ''-'' @ pad2 m" "validCivil (y, m, 1)"
    "mo @ ''-01'' = formatISODate (y, m, 1)" "monthIndex mo = 12 * y + (m - 1)"
proof -
  from assms obtain c where c: "parseISODate (mo @ ''-01'') = Some c"
    by (auto simp: isISOMonth_def isISODate_def)
  obtain y m d where cc: "c = (y, m, d)"
    by (cases c) auto
  from parseISODate_format[OF c] have f: "mo @ ''-01'' = formatISODate (y, m, d)"
    and v: "validCivil (y, m, d)"
    by (simp_all add: cc)
  have "length (mo @ ''-01'') = 10"
    by (simp add: f formatISODate_def)
  then have len: "length mo = 7"
    by simp
  have "mo @ ''-01'' = (pad4 y @ ''-'' @ pad2 m) @ (''-'' @ pad2 d)"
    by (simp add: f formatISODate_def)
  then have "mo = pad4 y @ ''-'' @ pad2 m \<and> ''-01'' = ''-'' @ pad2 d"
    using len by (subst (asm) append_eq_append_conv) simp_all
  then have mo: "mo = pad4 y @ ''-'' @ pad2 m" and "pad2 d = pad2 1"
    unfolding pad2_1 by simp_all
  then have d: "d = 1"
    using validCivil_bounds[OF v] by (simp add: pad2_eq)
  have idx: "monthIndex mo = 12 * y + (m - 1)"
    using c len by (simp add: monthIndex_def cc)
  show ?thesis
    using mo v f idx by (intro that[of y m]) (simp_all add: d)
qed

lemma before_month_iff:
  assumes "isISODate s" "isISOMonth mo"
  shows "(s < mo @ ''-01'') = (monthIndex s < monthIndex mo)"
proof -
  from assms(1) obtain c where c: "parseISODate s = Some c" "s = formatISODate c" "validCivil c"
    by (rule isISODate_civil)
  obtain y m d where cc: "c = (y, m, d)"
    by (cases c) auto
  from assms(2) obtain y' m' where mo: "validCivil (y', m', 1)"
    "mo @ ''-01'' = formatISODate (y', m', 1)" "monthIndex mo = 12 * y' + (m' - 1)"
    by (rule isISOMonth_parts)
  have mb: "1 \<le> m" "m \<le> 12" "1 \<le> d" "1 \<le> m'" "m' \<le> 12"
    using c(3) mo(1) by (simp_all add: cc validCivil_def)
  have "(s < mo @ ''-01'') = civilLess (y, m, d) (y', m', 1)"
    using civilLess_format[OF c(3)[unfolded cc] mo(1)] by (simp add: c(2) cc mo(2))
  also have "\<dots> = (12 * y + (m - 1) < 12 * y' + (m' - 1))"
    using mb by (auto simp: civilLess_def)
  finally show ?thesis
    using monthIndex_date[OF c(1)[unfolded cc]] by (simp add: mo(3))
qed

lemma in_month_iff:
  assumes "isISODate s" "isISOMonth mo"
  shows "startsWith s mo = (monthIndex s = monthIndex mo)"
proof -
  from assms(1) obtain c where c: "parseISODate s = Some c" "s = formatISODate c" "validCivil c"
    by (rule isISODate_civil)
  obtain y m d where cc: "c = (y, m, d)"
    by (cases c) auto
  from assms(2) obtain y' m' where mo: "mo = pad4 y' @ ''-'' @ pad2 m'" "validCivil (y', m', 1)"
    "monthIndex mo = 12 * y' + (m' - 1)"
    by (rule isISOMonth_parts)
  have mb: "1 \<le> m" "m \<le> 12" "1 \<le> m'" "m' \<le> 12"
    using c(3) mo(2) by (simp_all add: cc validCivil_def)
  note b = validCivil_bounds[OF c(3)[unfolded cc]] validCivil_bounds[OF mo(2)]
  have len: "length mo = 7"
    by (simp add: mo(1))
  have "startsWith s mo = (pad4 y @ ''-'' @ pad2 m = pad4 y' @ ''-'' @ pad2 m')"
    unfolding startsWith_def len c(2) cc take7_format by (simp add: mo(1))
  also have "\<dots> = (pad4 y = pad4 y' \<and> pad2 m = pad2 m')"
    by (subst append_eq_append_conv) simp_all
  also have "\<dots> = (y = y' \<and> m = m')"
    using b by (simp add: pad4_eq pad2_eq)
  also have "\<dots> = (12 * y + (m - 1) = 12 * y' + (m' - 1))"
  proof
    assume "y = y' \<and> m = m'"
    then show "12 * y + (m - 1) = 12 * y' + (m' - 1)" by simp
  next
    assume eq: "12 * y + (m - 1) = 12 * y' + (m' - 1)"
    from mb obtain a a' where a: "m = Suc a" "a < 12" "m' = Suc a'" "a' < 12"
      by (cases m; cases m') auto
    from eq have e: "12 * y + a = 12 * y' + a'"
      by (simp add: a)
    have "(12 * y + a) div 12 = y" "(12 * y' + a') div 12 = y'"
      "(12 * y + a) mod 12 = a" "(12 * y' + a') mod 12 = a'"
      using a by simp_all
    with e have "y = y'" "a = a'"
      by metis+
    then show "y = y' \<and> m = m'"
      by (simp add: a)
  qed
  finally show ?thesis
    using monthIndex_date[OF c(1)[unfolded cc]] by (simp add: mo(3))
qed

lemma monthStartLoop_takeWhile:
  "monthStartLoop firstDay b es =
     b + sum_list (map leadDelta (takeWhile (\<lambda>e. date e < firstDay) es))"
  by (induction es arbitrary: b) (simp_all add: leadDelta_def)

lemma takeWhile_filter_sorted:
  "sorted (map key xs) \<Longrightarrow>
   takeWhile (\<lambda>x. key x < t) xs = filter (\<lambda>x. key x < t) xs"
  for key :: "'a \<Rightarrow> int"
proof (induction xs)
  case Nil
  show ?case by simp
next
  case (Cons x xs)
  show ?case
  proof (cases "key x < t")
    case True
    with Cons show ?thesis by simp
  next
    case False
    with Cons.prems have "\<forall>y\<in>set xs. \<not> key y < t"
      by auto
    then have "filter (\<lambda>x. key x < t) xs = []"
      by (simp add: filter_empty_conv)
    with False show ?thesis by simp
  qed
qed

lemma entriesWithBalance_takeWhile:
  "takeWhile (\<lambda>r. Q (date r)) (entriesWithBalance b es) =
   entriesWithBalance b (takeWhile (\<lambda>e. Q (date e)) es)"
  by (induction es arbitrary: b) (simp_all add: Let_def)

lemma entriesWithBalance_last:
  "es \<noteq> [] \<Longrightarrow>
   endOfDayBalance (last (entriesWithBalance b es)) = b + sum_list (map leadDelta es)"
proof (induction es arbitrary: b)
  case Nil
  then show ?case by simp
next
  case (Cons e es)
  show ?case
  proof (cases "es = []")
    case True
    then show ?thesis
      by (simp add: entriesWithBalance_Cons del: entriesWithBalance.simps(2))
  next
    case False
    then have "entriesWithBalance (b + leadDelta e) es \<noteq> []"
      by (metis length_entriesWithBalance length_0_conv)
    with Cons.IH[OF False, of "b + leadDelta e"] show ?thesis
      by (simp add: entriesWithBalance_Cons del: entriesWithBalance.simps)
  qed
qed

lemma entriesWithBalance_times:
  "map (\<lambda>r. timeOf (date r)) (entriesWithBalance b es) = map (\<lambda>e. timeOf (date e)) es"
  by (induction es arbitrary: b) (simp_all add: Let_def)

lemma chronological_valid:
  assumes "datesValid p" "e \<in> set (chronologicalEntries p)"
  shows "isISODate (date e)"
proof -
  have "set (chronologicalEntries p) = set (dailyEntries p)"
    by (metis chronologicalEntries_def mset_jsSort set_mset_mset)
  with assms show ?thesis
    by (simp add: datesValid_def list_all_iff)
qed

lemma chronological_sorted_time:
  assumes "datesValid p"
  shows "sorted (map (\<lambda>e. timeOf (date e)) (chronologicalEntries p))"
  by (simp add: chronological_sort_key[OF assms])

text \<open>The month-start balance, as a sum over all entries dated before the month.\<close>

lemma initialLeadsForMonth_sum:
  assumes "datesValid p" "isISOMonth mo"
  shows "initialLeadsForMonth (monthlySummary p mo) =
     initialLeads p + sum_list (map leadDelta
       (filter (\<lambda>e. timeOf (date e) < timeOf (mo @ ''-01'')) (chronologicalEntries p)))"
proof -
  let ?es = "chronologicalEntries p"
  have "takeWhile (\<lambda>e. date e < mo @ ''-01'') ?es =
        takeWhile (\<lambda>e. timeOf (date e) < timeOf (mo @ ''-01'')) ?es"
    using assms by (intro takeWhile_cong refl) (simp add: isISODate_less chronological_valid isISOMonth_def)
  also have "\<dots> = filter (\<lambda>e. timeOf (date e) < timeOf (mo @ ''-01'')) ?es"
    by (rule takeWhile_filter_sorted) (rule chronological_sorted_time[OF assms(1)])
  finally show ?thesis
    by (simp add: monthlySummary_def Let_def monthStartLoop_takeWhile chronologicalEntries_def)
qed

text \<open>
  C3. For a broker whose entries carry calendar dates and a month of the calendar, the
  month-start balance that \<open>monthlySummary\<close> computes, folding the sorted entries while
  their date string is below the first day of the month and stopping at the first that is
  not, is the \<open>endOfDayBalance\<close> the projection gives the last entry dated before that
  day, or \<open>initialLeads\<close> when there is none.
\<close>

theorem month_start_is_balance_before_month:
  assumes "datesValid p" "isISOMonth mo"
  shows "initialLeadsForMonth (monthlySummary p mo) = monthStartBalanceSpec p mo"
proof -
  let ?es = "chronologicalEntries p"
  let ?t = "timeOf (mo @ ''-01'')"
  let ?pre = "takeWhile (\<lambda>e. timeOf (date e) < ?t) ?es"
  have pre: "?pre = filter (\<lambda>e. timeOf (date e) < ?t) ?es"
    by (rule takeWhile_filter_sorted) (rule chronological_sorted_time[OF assms(1)])
  have "sorted (map (\<lambda>r. timeOf (date r)) (entriesWithBalance (initialLeads p) ?es))"
    unfolding entriesWithBalance_times by (rule chronological_sorted_time[OF assms(1)])
  then have "filter (\<lambda>r. timeOf (date r) < ?t) (entriesWithBalance (initialLeads p) ?es) =
      takeWhile (\<lambda>r. timeOf (date r) < ?t) (entriesWithBalance (initialLeads p) ?es)"
    by (rule takeWhile_filter_sorted[symmetric])
  also have "\<dots> = entriesWithBalance (initialLeads p) ?pre"
    by (rule entriesWithBalance_takeWhile[of "\<lambda>d. timeOf d < ?t"])
  finally have before: "filter (\<lambda>r. timeOf (date r) < ?t) (rev (entriesWithCalculatedBalances p)) =
      entriesWithBalance (initialLeads p) ?pre"
    by (simp add: entriesWithCalculatedBalances_def)
  have "monthStartBalanceSpec p mo = initialLeads p + sum_list (map leadDelta ?pre)"
  proof (cases "?pre = []")
    case True
    then show ?thesis
      unfolding monthStartBalanceSpec_def before Let_def by simp
  next
    case False
    then have "entriesWithBalance (initialLeads p) ?pre \<noteq> []"
      by (metis length_entriesWithBalance length_0_conv)
    then show ?thesis
      unfolding monthStartBalanceSpec_def before Let_def
      by (simp add: entriesWithBalance_last[OF False])
  qed
  then show ?thesis
    by (simp add: initialLeadsForMonth_sum[OF assms] pre)
qed

lemma daysInMonth_ge: "1 \<le> daysInMonth y m"
  by (simp add: daysInMonth_def)

lemma leadDelta_sum:
  "sum_list (map leadDelta xs) =
     sum_list (map newLeads xs) + sum_list (map (\<lambda>e. orZero (repiqueLeads e)) xs)
       - sum_list (map discardedLeads xs) - sum_list (map signedLeads xs)"
  by (induction xs) (simp_all add: leadDelta_def)

lemma length_monthString [simp]: "length (monthString k) = 7"
  by (simp add: monthString_def)

lemma monthString_valid:
  assumes "k div 12 \<le> 9999"
  shows "isISOMonth (monthString k)" and "monthIndex (monthString k) = k"
proof -
  have "k mod 12 < 12"
    by simp
  then have v: "validCivil (k div 12, k mod 12 + 1, 1)"
    using assms daysInMonth_ge[of "k div 12" "k mod 12 + 1"]
    by (simp add: validCivil_def del: mod_less_divisor)
  have f: "monthString k @ ''-01'' = formatISODate (k div 12, k mod 12 + 1, 1)"
    by (simp only: format_first monthString_def)
  show "isISOMonth (monthString k)"
    by (simp only: isISOMonth_def isISODate_def f parseISODate_formatISODate[OF v]) simp
  have "take 7 (monthString k) = monthString k"
    by simp
  then have "monthIndex (monthString k) = 12 * (k div 12) + (k mod 12 + 1 - 1)"
    unfolding monthIndex_def
    by (simp only: f parseISODate_formatISODate[OF v] option.case prod.case)
  then show "monthIndex (monthString k) = k"
    by simp
qed

lemma monthString_monthIndex:
  assumes "isISOMonth mo"
  shows "monthString (monthIndex mo) = mo"
proof -
  from assms obtain y m where mo: "mo = pad4 y @ ''-'' @ pad2 m" "validCivil (y, m, 1)"
    "monthIndex mo = 12 * y + (m - 1)"
    by (rule isISOMonth_parts)
  from mo(2) obtain a where a: "m = Suc a" "a < 12"
    by (cases m) (auto simp: validCivil_def)
  have dm: "(12 * y + a) div 12 = y" "(12 * y + a) mod 12 = a"
    using a by simp_all
  have "monthIndex mo = 12 * y + a"
    by (simp add: mo(3) a)
  then have "monthString (monthIndex mo) = pad4 y @ ''-'' @ pad2 (Suc a)"
    using a by (simp add: monthString_def dm)
  then show ?thesis
    by (simp add: mo(1) a)
qed

lemma monthOf_date:
  assumes "isISODate s"
  shows "isISOMonth (monthOf s)" and "monthIndex (monthOf s) = monthIndex s"
    and "monthIndex s div 12 \<le> 9999"
proof -
  from assms obtain c where c: "parseISODate s = Some c" "s = formatISODate c" "validCivil c"
    by (rule isISODate_civil)
  obtain y m d where cc: "c = (y, m, d)"
    by (cases c) auto
  have f: "monthOf s @ ''-01'' = formatISODate (y, m, 1)"
    by (simp only: monthOf_def c(2) cc take7_format format_first)
  have v: "validCivil (y, m, 1)"
    using c(3) unfolding cc by (rule validCivil_first)
  show "isISOMonth (monthOf s)"
    by (simp only: isISOMonth_def isISODate_def f parseISODate_formatISODate[OF v]) simp
  show "monthIndex (monthOf s) = monthIndex s"
    by (simp add: monthIndex_def monthOf_def)
  from v obtain a where a: "m = Suc a" "a < 12" and y: "y \<le> 9999"
    by (cases m) (auto simp: validCivil_def)
  have "(12 * y + a) div 12 = y"
    using a by simp
  then show "monthIndex s div 12 \<le> 9999"
    using monthIndex_date[OF c(1)[unfolded cc]] y by (simp add: a)
qed

lemma monthIndex_mono:
  assumes "isISODate a" "isISODate b" "timeOf a \<le> timeOf b"
  shows "monthIndex a \<le> monthIndex b"
proof (rule ccontr)
  assume "\<not> monthIndex a \<le> monthIndex b"
  then have lt: "monthIndex b < monthIndex a"
    by simp
  have m: "isISOMonth (monthOf a)" "monthIndex (monthOf a) = monthIndex a"
    using monthOf_date[OF assms(1)] by simp_all
  from lt have "b < monthOf a @ ''-01''"
    using before_month_iff[OF assms(2) m(1)] by (simp add: m(2))
  moreover have "\<not> a < monthOf a @ ''-01''"
    using before_month_iff[OF assms(1) m(1)] by (simp add: m(2))
  ultimately have "b < a"
    using less_le_trans[of b "monthOf a @ ''-01''" a] by (simp add: not_less)
  then have "timeOf b < timeOf a"
    by (simp add: isISODate_less assms)
  with assms(3) show False
    by simp
qed

lemma sum_filter_split:
  "sum_list (map f (filter (\<lambda>x. g x < k) xs)) + sum_list (map f (filter (\<lambda>x. g x = k) xs)) =
   sum_list (map f (filter (\<lambda>x. g x \<le> k) xs))"
  for f :: "'a \<Rightarrow> int" and g :: "'a \<Rightarrow> nat"
  by (induction xs) auto

text \<open>Start and end balance of a month, as sums over the entries up to that month.\<close>

lemma monthlySummary_sums:
  assumes "datesValid p" "isISOMonth mo"
  shows "initialLeadsForMonth (monthlySummary p mo) =
           initialLeads p + sum_list (map leadDelta
             (filter (\<lambda>e. monthIndex (date e) < monthIndex mo) (chronologicalEntries p)))"
    and "finalLeadsForMonth (monthlySummary p mo) =
           initialLeads p + sum_list (map leadDelta
             (filter (\<lambda>e. monthIndex (date e) \<le> monthIndex mo) (chronologicalEntries p)))"
proof -
  let ?es = "chronologicalEntries p"
  have first: "isISODate (mo @ ''-01'')"
    using assms(2) by (simp add: isISOMonth_def)
  have "filter (\<lambda>e. timeOf (date e) < timeOf (mo @ ''-01'')) ?es =
        filter (\<lambda>e. monthIndex (date e) < monthIndex mo) ?es"
    using assms first
    by (intro filter_cong refl)
       (simp add: isISODate_less[symmetric] chronological_valid before_month_iff)
  then show start: "initialLeadsForMonth (monthlySummary p mo) =
           initialLeads p + sum_list (map leadDelta
             (filter (\<lambda>e. monthIndex (date e) < monthIndex mo) ?es))"
    by (simp add: initialLeadsForMonth_sum[OF assms])
  have inm: "filter (\<lambda>e. startsWith (date e) mo) ?es =
        filter (\<lambda>e. monthIndex (date e) = monthIndex mo) ?es"
    using assms by (intro filter_cong refl) (simp add: chronological_valid in_month_iff)
  have "finalLeadsForMonth (monthlySummary p mo) =
      initialLeadsForMonth (monthlySummary p mo) +
      sum_list (map leadDelta (filter (\<lambda>e. startsWith (date e) mo) ?es))"
    by (simp add: monthlySummary_def Let_def foldl_plus_sum_list chronologicalEntries_def
        leadDelta_sum)
  then show "finalLeadsForMonth (monthlySummary p mo) =
           initialLeads p + sum_list (map leadDelta
             (filter (\<lambda>e. monthIndex (date e) \<le> monthIndex mo) ?es))"
    unfolding start inm
    using sum_filter_split[of leadDelta "\<lambda>e. monthIndex (date e)" "monthIndex mo" ?es]
    by simp
qed

lemma sorted_hd_le:
  "sorted (map key xs) \<Longrightarrow> x \<in> set xs \<Longrightarrow> key (hd xs) \<le> key x"
  for key :: "'a \<Rightarrow> int"
  by (cases xs) auto

lemma sorted_le_last:
  "sorted (map key xs) \<Longrightarrow> x \<in> set xs \<Longrightarrow> key x \<le> key (last xs)"
  for key :: "'a \<Rightarrow> int"
proof (induction xs)
  case Nil
  then show ?case by simp
next
  case (Cons a xs)
  then show ?case by (cases "xs = []") auto
qed

lemma hd_entriesWithBalance: "es \<noteq> [] \<Longrightarrow> date (hd (entriesWithBalance b es)) = date (hd es)"
  by (cases es) (simp_all add: Let_def)

lemma last_entriesWithBalance:
  "es \<noteq> [] \<Longrightarrow> date (last (entriesWithBalance b es)) = date (last es)"
proof -
  assume ne: "es \<noteq> []"
  then have "map date (entriesWithBalance b es) \<noteq> []"
    by simp
  then have "last (map date (entriesWithBalance b es)) = date (last (entriesWithBalance b es))"
    by (metis last_map map_is_Nil_conv)
  then show ?thesis
    using ne by (simp add: last_map)
qed

text \<open>
  C2. For a broker with at least one entry, all with calendar dates, take the months from
  the month of the first entry through the month of the last, in order. The first month
  starts from \<open>initialLeads\<close>, every later month starts from the end balance of the month
  before it, and the end balance of the last month is the \<open>endOfDayBalance\<close> of the last
  entry in date order.
\<close>

theorem last_balance_is_month_end_through_months:
  assumes "datesValid p" "dailyEntries p \<noteq> []"
  shows "(let chron = rev (entriesWithCalculatedBalances p);
              ms = monthsFromTo (monthOf (date (hd chron))) (monthOf (date (last chron)))
          in ms \<noteq> [] \<and>
             hd ms = monthOf (date (hd chron)) \<and>
             last ms = monthOf (date (last chron)) \<and>
             initialLeadsForMonth (monthlySummary p (hd ms)) = initialLeads p \<and>
             (\<forall>i. Suc i < length ms \<longrightarrow>
                  initialLeadsForMonth (monthlySummary p (ms ! Suc i)) =
                  finalLeadsForMonth (monthlySummary p (ms ! i))) \<and>
             finalLeadsForMonth (monthlySummary p (last ms)) = endOfDayBalance (last chron))"
proof -
  let ?es = "chronologicalEntries p"
  define chron where "chron = rev (entriesWithCalculatedBalances p)"
  have chron: "chron = entriesWithBalance (initialLeads p) ?es"
    by (simp add: chron_def entriesWithCalculatedBalances_def)
  have "mset ?es = mset (dailyEntries p)"
    by (simp add: chronologicalEntries_def mset_jsSort)
  with assms(2) have ne: "?es \<noteq> []"
    by (metis mset_zero_iff)
  define first where "first = date (hd ?es)"
  define final where "final = date (last ?es)"
  have dates: "date (hd chron) = first" "date (last chron) = final"
    using ne by (simp_all add: chron first_def final_def hd_entriesWithBalance last_entriesWithBalance)
  have vf: "isISODate first" "isISODate final"
    using ne assms(1) by (simp_all add: first_def final_def chronological_valid)
  define a where "a = monthIndex first"
  define b where "b = monthIndex final"
  note srt = chronological_sorted_time[OF assms(1)]
  have range: "a \<le> monthIndex (date e) \<and> monthIndex (date e) \<le> b" if "e \<in> set ?es" for e
  proof -
    have ve: "isISODate (date e)"
      using assms(1) that by (rule chronological_valid)
    have "timeOf first \<le> timeOf (date e)" "timeOf (date e) \<le> timeOf final"
      unfolding first_def final_def
      using sorted_hd_le[OF srt that] sorted_le_last[OF srt that] by simp_all
    then show ?thesis
      unfolding a_def b_def using monthIndex_mono ve vf by blast
  qed
  have ab: "a \<le> b"
    using range[of "hd ?es"] ne by (meson hd_in_set le_trans)
  have bdiv: "b div 12 \<le> 9999"
    unfolding b_def by (rule monthOf_date(3)[OF vf(2)])
  define ms where "ms = monthsFromTo (monthOf first) (monthOf final)"
  have ms: "ms = map monthString [a..<Suc b]"
    by (simp add: ms_def monthsFromTo_def a_def b_def monthOf_date(2) vf)
  have len: "length ms = Suc b - a"
    by (simp add: ms del: upt_Suc)
  have nth: "ms ! i = monthString (a + i)" if "i < length ms" for i
    using that by (simp add: ms del: upt_Suc)
  have valid: "isISOMonth (ms ! i) \<and> monthIndex (ms ! i) = a + i" if "i < length ms" for i
  proof -
    from that have "a + i \<le> b"
      by (simp add: len)
    then have "(a + i) div 12 \<le> b div 12"
      by (rule div_le_mono)
    with bdiv have "(a + i) div 12 \<le> 9999"
      by simp
    then show ?thesis
      using monthString_valid[of "a + i"] by (simp add: nth[OF that])
  qed
  have nonempty: "ms \<noteq> []"
    using ab by (simp add: ms)
  have hd_ms: "hd ms = monthOf first"
  proof -
    have "hd ms = monthString a"
      using ab by (simp add: ms upt_conv_Cons del: upt_Suc)
    then show ?thesis
      by (simp add: a_def monthOf_date(2)[OF vf(1), symmetric]
          monthString_monthIndex[OF monthOf_date(1)[OF vf(1)]])
  qed
  have last_ms: "last ms = monthOf final"
  proof -
    have "last ms = monthString b"
      using ab by (simp add: ms last_map)
    then show ?thesis
      by (simp add: b_def monthOf_date(2)[OF vf(2), symmetric]
          monthString_monthIndex[OF monthOf_date(1)[OF vf(2)]])
  qed
  have start: "initialLeadsForMonth (monthlySummary p (hd ms)) = initialLeads p"
  proof -
    have m: "isISOMonth (monthOf first)" "monthIndex (monthOf first) = a"
      using monthOf_date[OF vf(1)] by (simp_all add: a_def)
    have "\<not> monthIndex (date e) < a" if "e \<in> set ?es" for e
      using range[OF that] by simp
    then have "filter (\<lambda>e. monthIndex (date e) < a) ?es = []"
      by (simp add: filter_empty_conv)
    then show ?thesis
      by (simp add: hd_ms monthlySummary_sums(1)[OF assms(1) m(1)] m(2))
  qed
  have chain: "initialLeadsForMonth (monthlySummary p (ms ! Suc i)) =
               finalLeadsForMonth (monthlySummary p (ms ! i))" if "Suc i < length ms" for i
  proof -
    from that have i: "i < length ms"
      by simp
    note v1 = valid[OF that] and v0 = valid[OF i]
    have "filter (\<lambda>e. monthIndex (date e) < a + Suc i) ?es =
          filter (\<lambda>e. monthIndex (date e) \<le> a + i) ?es"
      by (intro filter_cong refl) auto
    then show ?thesis
      using v1 v0 by (simp add: monthlySummary_sums[OF assms(1)])
  qed
  have finish: "finalLeadsForMonth (monthlySummary p (last ms)) = endOfDayBalance (last chron)"
  proof -
    have m: "isISOMonth (monthOf final)" "monthIndex (monthOf final) = b"
      using monthOf_date[OF vf(2)] by (simp_all add: b_def)
    have "monthIndex (date e) \<le> b" if "e \<in> set ?es" for e
      using range[OF that] by simp
    then have "filter (\<lambda>e. monthIndex (date e) \<le> b) ?es = ?es"
      by (simp add: filter_id_conv)
    then show ?thesis
      by (simp add: last_ms monthlySummary_sums(2)[OF assms(1) m(1)] m(2) chron
          entriesWithBalance_last[OF ne])
  qed
  show ?thesis
    unfolding Let_def chron_def[symmetric] dates ms_def[symmetric]
    using nonempty hd_ms last_ms start chain finish by blast
qed

lemma threeMonthProfile_valid: "datesValid threeMonthProfile"
  by (simp add: datesValid_def threeMonthProfile_def exampleEntry_def example_valid)

lemma threeMonthProfile_initial: "initialLeads threeMonthProfile = 50"
  by (simp add: threeMonthProfile_def)

lemma threeMonthProfile_chronological:
  "chronologicalEntries threeMonthProfile =
     [exampleEntry ''2024-01-15'' 10 2 (Some 1) 3, exampleEntry ''2024-01-31'' 0 5 None 0,
      exampleEntry ''2024-03-01'' 2 0 (Some 2) 1, exampleEntry ''2024-03-10'' 4 1 None 1]"
  by (simp add: chronologicalEntries_def jsSort_def byDate_def threeMonthProfile_def
      exampleEntry_def example_times)

lemma threeMonthProfile_projection:
  "map (\<lambda>r. (date r, startOfDayBalance r, endOfDayBalance r))
     (rev (entriesWithCalculatedBalances threeMonthProfile)) =
   [(''2024-01-15'', 50, 56), (''2024-01-31'', 56, 51), (''2024-03-01'', 51, 54),
    (''2024-03-10'', 54, 56)]"
  by (simp add: entriesWithCalculatedBalances_def threeMonthProfile_chronological
      threeMonthProfile_initial exampleEntry_def withBalance_def DailyEntry.defs orZero_def Let_def)

lemma example_month_index:
  "monthIndex ''2024-01'' = 24288" "monthIndex ''2024-03'' = 24290"
  by (simp_all add: monthIndex_def example_parsed)

lemma example_month_strings:
  "monthString 24288 = ''2024-01''" "monthString 24289 = ''2024-02''"
  "monthString 24290 = ''2024-03''"
  by (simp_all add: monthString_def pad4_def pad2_def digitChar_def char_of_digits)

lemma threeMonthProfile_months:
  "monthsFromTo (monthOf (date (hd (rev (entriesWithCalculatedBalances threeMonthProfile)))))
     (monthOf (date (last (rev (entriesWithCalculatedBalances threeMonthProfile))))) =
   [''2024-01'', ''2024-02'', ''2024-03'']"
proof -
  have "rev (entriesWithCalculatedBalances threeMonthProfile) \<noteq> []"
    using threeMonthProfile_projection by auto
  moreover have "map date (rev (entriesWithCalculatedBalances threeMonthProfile)) =
      map fst (map (\<lambda>r. (date r, startOfDayBalance r, endOfDayBalance r))
        (rev (entriesWithCalculatedBalances threeMonthProfile)))"
    by (simp add: comp_def)
  then have "map date (rev (entriesWithCalculatedBalances threeMonthProfile)) =
      [''2024-01-15'', ''2024-01-31'', ''2024-03-01'', ''2024-03-10'']"
    by (simp only: threeMonthProfile_projection) simp
  ultimately have "date (hd (rev (entriesWithCalculatedBalances threeMonthProfile))) = ''2024-01-15''"
    "date (last (rev (entriesWithCalculatedBalances threeMonthProfile))) = ''2024-03-10''"
    using hd_map[of "rev (entriesWithCalculatedBalances threeMonthProfile)" date]
      last_map[of "rev (entriesWithCalculatedBalances threeMonthProfile)" date]
    by simp_all
  then show ?thesis
    by (simp add: monthOf_def monthsFromTo_def example_month_index example_month_strings)
qed

lemma threeMonthProfile_last:
  "endOfDayBalance (last (rev (entriesWithCalculatedBalances threeMonthProfile))) = 56"
  by (simp add: entriesWithCalculatedBalances_def threeMonthProfile_chronological
      threeMonthProfile_initial exampleEntry_def withBalance_def DailyEntry.defs orZero_def Let_def)

lemma threeMonthProfile_january:
  "finalLeadsForMonth (monthlySummary threeMonthProfile ''2024-01'') = 51"
  by (simp add: monthlySummary_def threeMonthProfile_chronological[unfolded chronologicalEntries_def]
      threeMonthProfile_initial exampleEntry_def startsWith_def orZero_def Let_def)

lemma threeMonthProfile_spec:
  "monthStartBalanceSpec threeMonthProfile ''2024-03'' = 51"
  "monthStartBalanceSpec threeMonthProfile ''2024-01'' = 50"
  by (simp_all add: monthStartBalanceSpec_def entriesWithCalculatedBalances_def
      threeMonthProfile_chronological threeMonthProfile_initial exampleEntry_def withBalance_def
      DailyEntry.defs orZero_def Let_def timeOf_def example_times)

lemma isISOMonth_examples: "isISOMonth ''2024-03''" "isISOMonth ''2024-01''"
  by (simp_all add: isISOMonth_def example_valid)

text \<open>The witnesses of C3 and C2, on the broker with entries in January and March.\<close>

theorem month_start_witness:
  "datesValid threeMonthProfile \<and> isISOMonth ''2024-03'' \<and> isISOMonth ''2024-01'' \<and>
   initialLeadsForMonth (monthlySummary threeMonthProfile ''2024-03'') = 51 \<and>
   initialLeadsForMonth (monthlySummary threeMonthProfile ''2024-01'') = 50"
  using month_start_is_balance_before_month [OF threeMonthProfile_valid isISOMonth_examples(1)]
    month_start_is_balance_before_month [OF threeMonthProfile_valid isISOMonth_examples(2)]
    threeMonthProfile_valid isISOMonth_examples
  by (simp add: threeMonthProfile_spec)

theorem last_balance_witness:
  "datesValid threeMonthProfile \<and> dailyEntries threeMonthProfile \<noteq> [] \<and>
   initialLeadsForMonth (monthlySummary threeMonthProfile ''2024-01'') = 50 \<and>
   initialLeadsForMonth (monthlySummary threeMonthProfile ''2024-02'') = 51 \<and>
   initialLeadsForMonth (monthlySummary threeMonthProfile ''2024-03'') =
     finalLeadsForMonth (monthlySummary threeMonthProfile ''2024-02'') \<and>
   finalLeadsForMonth (monthlySummary threeMonthProfile ''2024-03'') = 56"
proof -
  have ne: "dailyEntries threeMonthProfile \<noteq> []"
    by (simp add: threeMonthProfile_def)
  note t = last_balance_is_month_end_through_months [OF threeMonthProfile_valid ne,
      unfolded Let_def threeMonthProfile_months]
  note start = t[THEN conjunct2, THEN conjunct2, THEN conjunct2, THEN conjunct1]
  note chain = t[THEN conjunct2, THEN conjunct2, THEN conjunct2, THEN conjunct2, THEN conjunct1,
      rule_format]
  note finish = t[THEN conjunct2, THEN conjunct2, THEN conjunct2, THEN conjunct2, THEN conjunct2]
  have jan: "initialLeadsForMonth (monthlySummary threeMonthProfile ''2024-01'') = 50"
    using start by (simp add: threeMonthProfile_initial)
  have feb: "initialLeadsForMonth (monthlySummary threeMonthProfile ''2024-02'') = 51"
    using chain[of 0] by (simp add: threeMonthProfile_january)
  have mar: "initialLeadsForMonth (monthlySummary threeMonthProfile ''2024-03'') =
     finalLeadsForMonth (monthlySummary threeMonthProfile ''2024-02'')"
    using chain[of 1] by simp
  have fin: "finalLeadsForMonth (monthlySummary threeMonthProfile ''2024-03'') = 56"
    using finish by (simp add: threeMonthProfile_last)
  show ?thesis
    using threeMonthProfile_valid ne jan feb mar fin by blast
qed

section \<open>From day numbers back to calendar dates\<close>

lemma daysBeforeYear_nonneg: "0 \<le> daysBeforeYear y"
  using daysBeforeYear_mono[of 0 y] by (simp add: daysBeforeYear_def)

lemma daysBeforeYear_strict: "y < y' \<Longrightarrow> daysBeforeYear y < daysBeforeYear y'"
proof -
  assume "y < y'"
  then have "daysBeforeYear (Suc y) \<le> daysBeforeYear y'"
    by (intro daysBeforeYear_mono) simp
  then show ?thesis
    by (simp add: daysBeforeYear_Suc split: if_splits)
qed

lemma yearFrom_spec:
  "daysBeforeYear y0 \<le> z \<Longrightarrow>
   y0 \<le> yearFrom y0 z \<and> daysBeforeYear (yearFrom y0 z) \<le> z \<and>
   z < daysBeforeYear (Suc (yearFrom y0 z))"
proof (induction y0 z rule: yearFrom.induct)
  case (1 y z)
  show ?case
  proof (cases "daysBeforeYear (Suc y) \<le> z")
    case True
    from "1.IH"[OF True True] show ?thesis
      using True by (subst (1 2 3) yearFrom.simps) simp
  next
    case False
    then show ?thesis
      using "1.prems" by (subst (1 2 3) yearFrom.simps) simp
  qed
qed

lemma monthFrom_spec:
  "1 \<le> m \<Longrightarrow> m \<le> 12 \<Longrightarrow> daysBeforeMonth y m + r < daysBeforeMonth y 13 \<Longrightarrow>
   (case monthFrom y m r of (m', r') \<Rightarrow>
      1 \<le> m' \<and> m' \<le> 12 \<and> r' < daysInMonth y m' \<and>
      daysBeforeMonth y m' + r' = daysBeforeMonth y m + r)"
proof (induction y m r rule: monthFrom.induct)
  case (1 y m r)
  show ?case
  proof (cases "m < 12 \<and> daysInMonth y m \<le> r")
    case True
    have step: "daysBeforeMonth y (Suc m) + (r - daysInMonth y m) = daysBeforeMonth y m + r"
      using True "1.prems" by (simp add: daysBeforeMonth_Suc)
    have "case monthFrom y (Suc m) (r - daysInMonth y m) of (m', r') \<Rightarrow>
      1 \<le> m' \<and> m' \<le> 12 \<and> r' < daysInMonth y m' \<and>
      daysBeforeMonth y m' + r' = daysBeforeMonth y (Suc m) + (r - daysInMonth y m)"
      using True "1.prems" step by (intro "1.IH") simp_all
    then show ?thesis
      using True step by (subst monthFrom.simps) (simp split: prod.splits)
  next
    case False
    have "r < daysInMonth y m"
    proof (cases "m < 12")
      case True
      with False show ?thesis by simp
    next
      case False
      with "1.prems" have m: "m = 12" by simp
      have "daysBeforeMonth y 13 = daysBeforeMonth y 12 + daysInMonth y 12"
        using daysBeforeMonth_Suc[of 12 y] by simp
      with "1.prems" m show ?thesis by simp
    qed
    then show ?thesis
      using False "1.prems" by (subst monthFrom.simps) simp
  qed
qed

text \<open>Every day number of the years 0 to 9999 is the day number of its calendar date.\<close>

lemma civilFromDays_valid:
  assumes "0 \<le> n + 719528" "n + 719528 < daysBeforeYear 10000"
  shows "validCivil (civilFromDays n)" and "daysFromCivil (civilFromDays n) = n"
proof -
  define z where "z = n + 719528"
  define y where "y = yearFrom (nat (z div 366)) z"
  have "daysBeforeYear (nat (z div 366)) \<le> 366 * int (nat (z div 366))"
    by (rule daysBeforeYear_le)
  also have "\<dots> \<le> z"
  proof -
    have "0 \<le> z"
      using assms(1) by (simp add: z_def)
    then have "0 \<le> z div 366"
      by simp
    moreover have "366 * (z div 366) + z mod 366 = z" "0 \<le> z mod 366"
      by simp_all
    ultimately show ?thesis
      by linarith
  qed
  finally have start: "daysBeforeYear (nat (z div 366)) \<le> z" .
  from yearFrom_spec[OF start] have y: "daysBeforeYear y \<le> z" "z < daysBeforeYear (Suc y)"
    by (simp_all add: y_def)
  have ylt: "y < 10000"
  proof (rule ccontr)
    assume "\<not> y < 10000"
    then have "daysBeforeYear 10000 \<le> daysBeforeYear y"
      by (intro daysBeforeYear_mono) simp
    with y(1) assms(2) show False
      by (simp add: z_def)
  qed
  define r where "r = nat (z - daysBeforeYear y)"
  have r: "int r = z - daysBeforeYear y"
    using y(1) by (simp add: r_def)
  have "int r < (if isLeapYear y then 366 else 365)"
    using y(2) r by (simp add: daysBeforeYear_Suc split: if_splits)
  moreover have "daysBeforeMonth y 1 = 0"
    by (simp add: daysBeforeMonth_def)
  ultimately have rlt: "daysBeforeMonth y 1 + r < daysBeforeMonth y 13"
    by (simp only: daysBeforeMonth_13) (simp split: if_splits)
  obtain m r' where mr: "monthFrom y 1 r = (m, r')"
    by (cases "monthFrom y 1 r") auto
  from monthFrom_spec[OF _ _ rlt] mr
  have m: "1 \<le> m" "m \<le> 12" "r' < daysInMonth y m" "daysBeforeMonth y m + r' = r"
    using \<open>daysBeforeMonth y 1 = 0\<close> by simp_all
  have mr': "monthFrom y (Suc 0) r = (m, r')"
    using mr by simp
  have c: "civilFromDays n = (y, m, Suc r')"
    by (simp add: civilFromDays_def Let_def z_def[symmetric] y_def[symmetric] r_def[symmetric] mr')
  show "validCivil (civilFromDays n)"
    using ylt m by (simp add: c validCivil_def)
  have "daysFromCivil (y, m, Suc r') = daysBeforeYear y + int (daysBeforeMonth y m + r') - 719528"
    by (simp add: daysFromCivil_def)
  also have "\<dots> = n"
    using r by (simp add: m(4) z_def)
  finally show "daysFromCivil (civilFromDays n) = n"
    by (simp add: c)
qed

lemma daysFromCivil_range:
  assumes "validCivil c"
  shows "0 \<le> daysFromCivil c + 719528" and "daysFromCivil c + 719528 < daysBeforeYear 10000"
proof -
  obtain y m d where c: "c = (y, m, d)"
    by (cases c) auto
  from assms have d: "1 \<le> d" and y: "Suc y \<le> 10000"
    by (simp_all add: c validCivil_def)
  show "0 \<le> daysFromCivil c + 719528"
    using d daysBeforeYear_nonneg[of y] by (simp add: c daysFromCivil_def)
  have "int (daysBeforeMonth y m + d) \<le> (if isLeapYear y then 366 else 365)"
    using dayOfYear_le[OF assms[unfolded c]] by (simp split: if_splits)
  then have "daysFromCivil c + 719528 < daysBeforeYear (Suc y)"
    by (simp add: c daysFromCivil_def daysBeforeYear_Suc)
  also have "\<dots> \<le> daysBeforeYear 10000"
    using y by (rule daysBeforeYear_mono)
  finally show "daysFromCivil c + 719528 < daysBeforeYear 10000" .
qed

lemma civilFromDays_daysFromCivil:
  assumes "validCivil c"
  shows "civilFromDays (daysFromCivil c) = c"
proof -
  note r = daysFromCivil_range[OF assms]
  show ?thesis
    using civilFromDays_valid[OF r] assms by (intro daysFromCivil_inj) simp_all
qed


section \<open>The bulk edit\<close>

lemma date_bulkUpdatedEntry [simp]: "date (bulkUpdatedEntry p cells ds) = ds"
  by (simp add: bulkUpdatedEntry_def Let_def)

lemma bulkUpdatedEntry_fields:
  "fieldValue fld (bulkUpdatedEntry p cells ds) =
     (case cells fld of
        Some (Num n) \<Rightarrow> n
      | _ \<Rightarrow> (case find (\<lambda>x. date x = ds) (dailyEntries p) of
                Some x \<Rightarrow> fieldValue fld x
              | None \<Rightarrow> 0))"
  by (cases fld)
     (simp_all add: fieldValue_def bulkUpdatedEntry_def pick_def orZero_def Let_def
       split: option.splits formValue.splits)

text \<open>
  \<open>setDate(getDate() + 1)\<close> moves the local time forward by one day and reads the
  result back as a local time (for day numbers of the years 0 to 9999).
\<close>

lemma setDate_getDate:
  assumes "0 \<le> localTime z tv div msPerDay + 719528"
    and "localTime z tv div msPerDay + 719528 < daysBeforeYear 10000"
  shows "setDate z tv (getDate z tv + 1) = utcTime z (localTime z tv + msPerDay)"
proof -
  define t where "t = localTime z tv"
  obtain y m d where c: "civilFromDays (t div msPerDay) = (y, m, d)"
    by (cases "civilFromDays (t div msPerDay)") auto
  have "daysFromCivil (y, m, d) = t div msPerDay"
    using civilFromDays_valid(2)[OF assms[folded t_def]] by (simp add: c)
  then have "daysFromCivil (y, m, 1) + (int d + 1) - 1 = t div msPerDay + 1"
    by (simp add: daysFromCivil_def)
  moreover have "(t div msPerDay + 1) * msPerDay + t mod msPerDay = t + msPerDay"
    by (simp add: algebra_simps)
  ultimately show ?thesis
    by (simp add: setDate_def getDate_def t_def[symmetric] c Let_def)
qed

lemma bulkLoop_days:
  assumes "0 \<le> off" "off < msPerDay"
    and "\<forall>k. a \<le> k \<and> k \<le> b + 1 \<longrightarrow>
           z (k * msPerDay) False = - off \<and> z (k * msPerDay + off) True = - off"
    and "0 \<le> a + 719528" "b + 719528 < daysBeforeYear 10000"
  shows "bulkLoop z p cells (a * msPerDay + off) (b * msPerDay + off) =
     Some (map (\<lambda>k. bulkUpdatedEntry p cells (toISODateString (k * msPerDay + off))) [a..b])"
  using assms(3,4)
proof (induction "nat (b + 1 - a)" arbitrary: a)
  case 0
  then have "\<not> a * msPerDay + off \<le> b * msPerDay + off"
    by (simp add: msPerDay_def)
  moreover from 0 have "[a..b] = []"
    by simp
  ultimately show ?case
    by (subst bulkLoop.simps) (simp only: if_False list.map)
next
  case (Suc n)
  from Suc.hyps(2) have le: "a \<le> b" and n: "n = nat (b + 1 - (a + 1))"
    by simp_all
  have here: "z (a * msPerDay + off) True = - off"
    using Suc.prems(1) le by simp
  have there: "z ((a + 1) * msPerDay) False = - off"
    using Suc.prems(1) le by simp
  have local: "localTime z (a * msPerDay + off) = a * msPerDay"
    by (simp add: localTime_def here)
  have day: "a * msPerDay div msPerDay = a"
    by (simp add: msPerDay_def)
  have "a + 719528 < daysBeforeYear 10000"
    using le assms(5) by simp
  with Suc.prems(2)
  have "setDate z (a * msPerDay + off) (getDate z (a * msPerDay + off) + 1) =
      utcTime z (a * msPerDay + msPerDay)"
    using setDate_getDate[of z "a * msPerDay + off"] by (simp only: local day)
  also have "a * msPerDay + msPerDay = (a + 1) * msPerDay"
    by (simp add: algebra_simps)
  also have "utcTime z ((a + 1) * msPerDay) = (a + 1) * msPerDay + off"
    by (simp add: utcTime_def there)
  finally have next_day:
    "setDate z (a * msPerDay + off) (getDate z (a * msPerDay + off) + 1) =
       (a + 1) * msPerDay + off" .
  have rest: "\<forall>k. a + 1 \<le> k \<and> k \<le> b + 1 \<longrightarrow>
           z (k * msPerDay) False = - off \<and> z (k * msPerDay + off) True = - off"
    using Suc.prems(1) by auto
  have "0 \<le> a + 1 + 719528"
    using Suc.prems(2) by simp
  with n rest
  have step: "bulkLoop z p cells ((a + 1) * msPerDay + off) (b * msPerDay + off) =
      Some (map (\<lambda>k. bulkUpdatedEntry p cells (toISODateString (k * msPerDay + off)))
              [a + 1..b])"
    by (rule Suc.hyps(1))
  have cond: "a * msPerDay + off \<le> b * msPerDay + off"
    using le by (simp add: msPerDay_def)
  show ?case
    by (subst bulkLoop.simps)
       (simp only: cond if_True next_day step upto_rec1[of a b] le list.map Option.bind.simps)
qed

lemma toISODateString_local_midnight:
  assumes "0 \<le> off" "off < msPerDay"
  shows "toISODateString (k * msPerDay + off) = formatISODate (civilFromDays k)"
proof -
  have "(k * msPerDay + off) div msPerDay = k"
    using assms by (simp add: msPerDay_def div_pos_pos_trivial)
  then show ?thesis
    by (simp add: toISODateString_def)
qed

lemma timeOf_format: "validCivil c \<Longrightarrow> timeOf (formatISODate c) = daysFromCivil c * msPerDay"
  by (simp add: timeOf_def newDate_def parseISODate_formatISODate)

lemma isISODate_format: "validCivil c \<Longrightarrow> isISODate (formatISODate c)"
  by (simp add: isISODate_def parseISODate_formatISODate)

lemma length_isISODate: "isISODate s \<Longrightarrow> length s = 10"
  by (erule isISODate_civil) (auto simp: formatISODate_def)

lemma handleBulkSave_flagged:
  assumes "parseISODate (bulkStartDate form) = Some c0"
    and "parseISODate (bulkEndDate form) = Some c1"
    and "daysFromCivil c0 \<le> daysFromCivil c1"
    and "hasActiveBulkErrors (bulkErrors form)"
  shows "handleBulkSave z profile form = Some ([], FixFieldErrors)"
proof -
  have "\<not> daysFromCivil c0 * msPerDay > daysFromCivil c1 * msPerDay"
    using assms(3) by (simp add: msPerDay_def)
  then show ?thesis
    using assms(4) by (simp add: handleBulkSave_def newDate_def assms(1,2))
qed

lemma handleBulkSave_run:
  assumes s: "parseISODate (bulkStartDate form) = Some c0"
    and e: "parseISODate (bulkEndDate form) = Some c1"
    and le: "daysFromCivil c0 \<le> daysFromCivil c1"
    and ok: "\<not> hasActiveBulkErrors (bulkErrors form)"
    and off: "0 \<le> off" "off < msPerDay"
    and steady: "steadyOffset z off (daysFromCivil c0 * msPerDay)
                   (daysFromCivil c1 * msPerDay + msPerDay)"
  shows "handleBulkSave z profile form =
     Some (map (\<lambda>k. bulkUpdatedEntry profile (bulkDailyData form)
                       (formatISODate (civilFromDays k)))
             [daysFromCivil c0..daysFromCivil c1], BulkSaved)"
proof -
  define a where "a = daysFromCivil c0"
  define b where "b = daysFromCivil c1"
  have len: "length (bulkStartDate form) = 10" "length (bulkEndDate form) = 10"
    using s e by (simp_all add: length_isISODate isISODate_def)
  have valid: "validCivil c0" "validCivil c1"
    using parseISODate_format[OF s] parseISODate_format[OF e] by simp_all
  have range: "0 \<le> a + 719528" "b + 719528 < daysBeforeYear 10000"
    unfolding a_def b_def using daysFromCivil_range valid by simp_all
  have guard: "\<not> a * msPerDay > b * msPerDay"
    using le by (simp add: msPerDay_def a_def b_def)
  have days: "z (k * msPerDay) False = - off \<and> z (k * msPerDay + off) True = - off"
    if "a \<le> k \<and> k \<le> b + 1" for k
  proof -
    have "a * msPerDay \<le> k * msPerDay \<and> k * msPerDay \<le> b * msPerDay + msPerDay"
      using that by (simp add: msPerDay_def)
    then show ?thesis
      using steady unfolding steadyOffset_def a_def b_def by blast
  qed
  have ab: "a \<le> b"
    using le by (simp add: a_def b_def)
  have ends: "z (a * msPerDay) False = - off" "z (b * msPerDay) False = - off"
    using days[of a] days[of b] ab by simp_all
  have local: "newDateLocal z (bulkStartDate form @ ''T00:00:00'') = Some (a * msPerDay + off)"
      "newDateLocal z (bulkEndDate form @ ''T00:00:00'') = Some (b * msPerDay + off)"
    using len by (simp_all add: newDateLocal_def s e utcTime_def ends a_def[symmetric] b_def[symmetric])
  have loop: "bulkLoop z profile (bulkDailyData form) (a * msPerDay + off) (b * msPerDay + off) =
     Some (map (\<lambda>k. bulkUpdatedEntry profile (bulkDailyData form)
                       (toISODateString (k * msPerDay + off))) [a..b])"
    using off _ range by (rule bulkLoop_days) (use days in blast)
  show ?thesis
    unfolding handleBulkSave_def a_def[symmetric] b_def[symmetric]
    using guard ok
    by (simp add: newDate_def s e local loop toISODateString_local_midnight[OF off]
        a_def[symmetric] b_def[symmetric])
qed

text \<open>
  C10, amended. Take a bulk edit whose two dates are calendar dates, the start not after
  the end. When a field of the form is flagged as invalid, \<open>handleBulkSave\<close> saves
  nothing and asks for the fields to be corrected. When no field is flagged, and the time
  zone stays at one offset, at or behind UTC by less than a day, from local midnight of
  the start date to local midnight of the day after the end date, \<open>handleBulkSave\<close>
  returns, reports success and calls \<open>onSaveEntry\<close> once for every calendar day from
  the start date through the end date and for no other date, in ascending order. In the
  entry written for a day, each of the eleven counters is the number in the form when the
  form holds a number for it, otherwise the counter of the first entry the profile has for
  that day, otherwise 0.
\<close>

theorem bulk_save_one_upsert_per_day:
  assumes "isISODate (bulkStartDate form)" "isISODate (bulkEndDate form)"
    and "timeOf (bulkStartDate form) \<le> timeOf (bulkEndDate form)"
  shows "(hasActiveBulkErrors (bulkErrors form) \<longrightarrow>
            handleBulkSave z profile form = Some ([], FixFieldErrors)) \<and>
     (\<not> hasActiveBulkErrors (bulkErrors form) \<and> 0 \<le> off \<and> off < msPerDay \<and>
      steadyOffset z off (timeOf (bulkStartDate form)) (timeOf (bulkEndDate form) + msPerDay) \<longrightarrow>
        (\<exists>saves.
           handleBulkSave z profile form = Some (saves, BulkSaved) \<and>
           distinct (map date saves) \<and>
           sorted (map (\<lambda>e. timeOf (date e)) saves) \<and>
           set (map date saves) =
             {d. isISODate d \<and> timeOf (bulkStartDate form) \<le> timeOf d \<and>
                 timeOf d \<le> timeOf (bulkEndDate form)} \<and>
           (\<forall>e \<in> set saves. \<forall>fld.
              fieldValue fld e =
                (case bulkDailyData form fld of
                   Some (Num n) \<Rightarrow> n
                 | _ \<Rightarrow> (case find (\<lambda>x. date x = date e) (dailyEntries profile) of
                           Some x \<Rightarrow> fieldValue fld x
                         | None \<Rightarrow> 0)))))"
proof (intro conjI impI)
  from assms(1) obtain c0 where c0: "parseISODate (bulkStartDate form) = Some c0"
    "validCivil c0" "timeOf (bulkStartDate form) = daysFromCivil c0 * msPerDay"
    by (rule isISODate_civil)
  from assms(2) obtain c1 where c1: "parseISODate (bulkEndDate form) = Some c1"
    "validCivil c1" "timeOf (bulkEndDate form) = daysFromCivil c1 * msPerDay"
    by (rule isISODate_civil)
  define a where "a = daysFromCivil c0"
  define b where "b = daysFromCivil c1"
  have ab: "a \<le> b"
    using assms(3) by (simp add: c0(3) c1(3) a_def b_def msPerDay_def)
  {
    assume "hasActiveBulkErrors (bulkErrors form)"
    with c0(1) c1(1) ab[unfolded a_def b_def]
    show "handleBulkSave z profile form = Some ([], FixFieldErrors)"
      by (rule handleBulkSave_flagged)
  }
  assume hyp: "\<not> hasActiveBulkErrors (bulkErrors form) \<and> 0 \<le> off \<and> off < msPerDay \<and>
      steadyOffset z off (timeOf (bulkStartDate form)) (timeOf (bulkEndDate form) + msPerDay)"
  define saves where "saves =
      map (\<lambda>k. bulkUpdatedEntry profile (bulkDailyData form) (formatISODate (civilFromDays k)))
        [a..b]"
  have run: "handleBulkSave z profile form = Some (saves, BulkSaved)"
    unfolding saves_def a_def b_def
    using c0(1) c1(1) ab[unfolded a_def b_def] hyp
    by (intro handleBulkSave_run[where off = off]) (simp_all add: c0(3) c1(3))
  have dates: "map date saves = map (\<lambda>k. formatISODate (civilFromDays k)) [a..b]"
    by (simp add: saves_def comp_def)
  have day: "validCivil (civilFromDays k) \<and> daysFromCivil (civilFromDays k) = k"
    if "a \<le> k" "k \<le> b" for k
  proof -
    have "0 \<le> a + 719528" "b + 719528 < daysBeforeYear 10000"
      unfolding a_def b_def using daysFromCivil_range[OF c0(2)] daysFromCivil_range[OF c1(2)]
      by simp_all
    with that have "0 \<le> k + 719528" "k + 719528 < daysBeforeYear 10000"
      by simp_all
    then show ?thesis
      using civilFromDays_valid by blast
  qed
  have times: "map (\<lambda>e. timeOf (date e)) saves = map (\<lambda>k. k * msPerDay) [a..b]"
  proof -
    have "map (\<lambda>e. timeOf (date e)) saves = map timeOf (map date saves)"
      by (simp add: comp_def)
    also have "\<dots> = map (\<lambda>k. timeOf (formatISODate (civilFromDays k))) [a..b]"
      by (simp add: dates comp_def)
    also have "\<dots> = map (\<lambda>k. k * msPerDay) [a..b]"
      using day by (intro map_cong refl) (simp add: timeOf_format)
    finally show ?thesis .
  qed
  have srt: "sorted (map (\<lambda>e. timeOf (date e)) saves)"
    unfolding times by (simp add: sorted_map msPerDay_def sorted_wrt_mono_rel[OF _ sorted_upto])
  have "distinct (map (\<lambda>k. k * msPerDay) [a..b])"
    by (simp add: distinct_map inj_on_def msPerDay_def)
  then have "distinct (map timeOf (map date saves))"
    using times by (simp add: comp_def)
  then have dist: "distinct (map date saves)"
    using distinct_map[of timeOf "map date saves"] by blast
  have range: "set (map date saves) =
       {d. isISODate d \<and> timeOf (bulkStartDate form) \<le> timeOf d \<and>
           timeOf d \<le> timeOf (bulkEndDate form)}"
  proof (intro set_eqI iffI)
    fix d
    assume "d \<in> set (map date saves)"
    then obtain k where k: "a \<le> k" "k \<le> b" "d = formatISODate (civilFromDays k)"
      by (auto simp: dates)
    from day[OF k(1,2)] have "isISODate d" "timeOf d = k * msPerDay"
      by (simp_all add: k(3) isISODate_format timeOf_format)
    then show "d \<in> {d. isISODate d \<and> timeOf (bulkStartDate form) \<le> timeOf d \<and>
           timeOf d \<le> timeOf (bulkEndDate form)}"
      using k(1,2) by (simp add: c0(3) c1(3) a_def[symmetric] b_def[symmetric] msPerDay_def)
  next
    fix d
    assume "d \<in> {d. isISODate d \<and> timeOf (bulkStartDate form) \<le> timeOf d \<and>
           timeOf d \<le> timeOf (bulkEndDate form)}"
    then have v: "isISODate d" and t: "a * msPerDay \<le> timeOf d" "timeOf d \<le> b * msPerDay"
      by (simp_all add: c0(3) c1(3) a_def b_def)
    from v obtain c where c: "d = formatISODate c" "validCivil c"
      "timeOf d = daysFromCivil c * msPerDay"
      by (rule isISODate_civil)
    from t have "a \<le> daysFromCivil c" "daysFromCivil c \<le> b"
      by (simp_all add: c(3) msPerDay_def)
    moreover have "d = formatISODate (civilFromDays (daysFromCivil c))"
      by (simp add: c(1) civilFromDays_daysFromCivil[OF c(2)])
    ultimately show "d \<in> set (map date saves)"
      unfolding dates by (auto intro!: image_eqI[of _ _ "daysFromCivil c"])
  qed
  have fields: "fieldValue fld e =
          (case bulkDailyData form fld of
             Some (Num n) \<Rightarrow> n
           | _ \<Rightarrow> (case find (\<lambda>x. date x = date e) (dailyEntries profile) of
                     Some x \<Rightarrow> fieldValue fld x
                   | None \<Rightarrow> 0))" if "e \<in> set saves" for e fld
  proof -
    from that obtain ds where e: "e = bulkUpdatedEntry profile (bulkDailyData form) ds"
      by (auto simp: saves_def)
    then have d: "date e = ds"
      by simp
    show ?thesis
      unfolding d unfolding e by (rule bulkUpdatedEntry_fields)
  qed
  show "\<exists>saves.
           handleBulkSave z profile form = Some (saves, BulkSaved) \<and>
           distinct (map date saves) \<and>
           sorted (map (\<lambda>e. timeOf (date e)) saves) \<and>
           set (map date saves) =
             {d. isISODate d \<and> timeOf (bulkStartDate form) \<le> timeOf d \<and>
                 timeOf d \<le> timeOf (bulkEndDate form)} \<and>
           (\<forall>e \<in> set saves. \<forall>fld.
              fieldValue fld e =
                (case bulkDailyData form fld of
                   Some (Num n) \<Rightarrow> n
                 | _ \<Rightarrow> (case find (\<lambda>x. date x = date e) (dailyEntries profile) of
                           Some x \<Rightarrow> fieldValue fld x
                         | None \<Rightarrow> 0)))"
    using run dist srt range fields by blast
qed

subsection \<open>Runs of the bulk edit in Sao Paulo and east of Greenwich\<close>

lemma clock_change_parsed:
  "parseISODate ''2018-11-03'' = Some (2018, 11, 3)"
  "parseISODate ''2018-11-05'' = Some (2018, 11, 5)"
  by (simp_all add: parseISODate.simps isDigit_def digitVal_def validCivil_def daysInMonth_def
      isLeapYear_def)

lemma clock_change_times:
  "newDate ''2018-11-03'' = Some 1541203200000"
  "newDate ''2018-11-05'' = Some 1541376000000"
  by (simp_all only: newDate_def clock_change_parsed option.map)
     (simp_all add: daysFromCivil_def daysBeforeYear_def daysBeforeMonth_def daysInMonth_def
       isLeapYear_def msPerDay_def upt_rec)

lemma newDateLocal_midnight:
  "length d = 10 \<Longrightarrow> newDateLocal z (d @ ''T00:00:00'') = map_option (utcTime z) (newDate d)"
  by (simp add: newDateLocal_def newDate_def option.map_comp comp_def)

lemma example_local_midnights:
  "newDateLocal saoPaulo ''2024-01-31T00:00:00'' = Some 1706670000000"
  "newDateLocal saoPaulo ''2024-02-01T00:00:00'' = Some 1706756400000"
  "newDateLocal saoPaulo ''2018-11-03T00:00:00'' = Some 1541214000000"
  "newDateLocal saoPaulo ''2018-11-05T00:00:00'' = Some 1541383200000"
  "newDateLocal (fixedZone 3600000) ''2024-03-10T00:00:00'' = Some 1710025200000"
  using newDateLocal_midnight[of "''2024-01-31''" saoPaulo]
    newDateLocal_midnight[of "''2024-02-01''" saoPaulo]
    newDateLocal_midnight[of "''2018-11-03''" saoPaulo]
    newDateLocal_midnight[of "''2018-11-05''" saoPaulo]
    newDateLocal_midnight[of "''2024-03-10''" "fixedZone 3600000"]
  by (simp_all add: example_times clock_change_times utcTime_def saoPaulo_def fixedZone_def)

text \<open>
  The steps of \<open>setDate(getDate() + 1)\<close> in these runs. From 3 November 2018 the step
  asks for the local midnight that the clock change skips and lands on 03:00 UTC of
  4 November, which is 01:00 local time; the next step keeps that hour.
\<close>

lemma example_steps:
  "setDate saoPaulo 1706670000000 (getDate saoPaulo 1706670000000 + 1) = 1706756400000"
  "setDate saoPaulo 1706756400000 (getDate saoPaulo 1706756400000 + 1) = 1706842800000"
  "setDate saoPaulo 1541214000000 (getDate saoPaulo 1541214000000 + 1) = 1541300400000"
  "setDate saoPaulo 1541300400000 (getDate saoPaulo 1541300400000 + 1) = 1541386800000"
  "setDate (fixedZone 3600000) 1710025200000 (getDate (fixedZone 3600000) 1710025200000 + 1) =
     1710111600000"
  using setDate_getDate[of saoPaulo 1706670000000] setDate_getDate[of saoPaulo 1706756400000]
    setDate_getDate[of saoPaulo 1541214000000] setDate_getDate[of saoPaulo 1541300400000]
    setDate_getDate[of "fixedZone 3600000" 1710025200000]
  by (simp_all add: localTime_def utcTime_def saoPaulo_def fixedZone_def msPerDay_def
      daysBeforeYear_def)

lemma example_iso_strings:
  "toISODateString 1706670000000 = ''2024-01-31''"
  "toISODateString 1706756400000 = ''2024-02-01''"
  "toISODateString 1710025200000 = ''2024-03-09''"
  "toISODateString 1541214000000 = ''2018-11-03''"
  "toISODateString 1541300400000 = ''2018-11-04''"
  by (simp_all add: toISODateString_def civilFromDays_def msPerDay_def yearFrom.simps
      monthFrom.simps daysBeforeYear_def daysInMonth_def isLeapYear_def formatISODate_def
      pad4_def pad2_def digitChar_def char_of_digits Let_def split del: if_split)

lemma exampleBulkForm_saved:
  "handleBulkSave saoPaulo threeMonthProfile exampleBulkForm =
     Some (bulkSavedExample, BulkSaved)"
  by (simp add: handleBulkSave_def exampleBulkForm_def handleBulkNumberChange_def
      emptyBulkForm_def hasActiveBulkErrors_def fieldOrder_def example_times
      example_local_midnights bulkLoop.simps example_steps example_iso_strings
      bulkUpdatedEntry_def pick_def orZero_def threeMonthProfile_def exampleEntry_def
      bulkSavedExample_def split del: if_split)

lemma exampleBulkForm_steady:
  "steadyOffset saoPaulo 10800000 (timeOf (bulkStartDate exampleBulkForm))
     (timeOf (bulkEndDate exampleBulkForm) + msPerDay)"
  by (simp add: steadyOffset_def saoPaulo_def exampleBulkForm_def handleBulkNumberChange_def
      emptyBulkForm_def timeOf_def example_times msPerDay_def)

text \<open>
  C10, as stated, fails: with a negative number typed into a field, the form is flagged
  and \<open>handleBulkSave\<close> saves nothing, although the start date is not after the end date.
\<close>

theorem bulk_save_flagged_form_counterexample:
  "isISODate (bulkStartDate rejectedBulkForm) \<and> isISODate (bulkEndDate rejectedBulkForm) \<and>
   timeOf (bulkStartDate rejectedBulkForm) \<le> timeOf (bulkEndDate rejectedBulkForm) \<and>
   bulkDailyData rejectedBulkForm NewLeads = Some (Num (- 1)) \<and>
   handleBulkSave saoPaulo threeMonthProfile rejectedBulkForm = Some ([], FixFieldErrors)"
  by (simp add: rejectedBulkForm_def handleBulkNumberChange_def emptyBulkForm_def
      example_valid timeOf_def example_times handleBulkSave_def hasActiveBulkErrors_def
      fieldOrder_def)

theorem bulk_save_witness:
  "isISODate (bulkStartDate exampleBulkForm) \<and> isISODate (bulkEndDate exampleBulkForm) \<and>
   timeOf (bulkStartDate exampleBulkForm) \<le> timeOf (bulkEndDate exampleBulkForm) \<and>
   \<not> hasActiveBulkErrors (bulkErrors exampleBulkForm) \<and>
   steadyOffset saoPaulo 10800000 (timeOf (bulkStartDate exampleBulkForm))
     (timeOf (bulkEndDate exampleBulkForm) + msPerDay) \<and>
   handleBulkSave saoPaulo threeMonthProfile exampleBulkForm =
     Some (bulkSavedExample, BulkSaved) \<and>
   distinct (map date bulkSavedExample) \<and>
   map date bulkSavedExample = [''2024-01-31'', ''2024-02-01''] \<and>
   hasActiveBulkErrors (bulkErrors rejectedBulkForm) \<and>
   handleBulkSave (fixedZone 3600000) threeMonthProfile rejectedBulkForm =
     Some ([], FixFieldErrors)"
proof -
  have h: "isISODate (bulkStartDate exampleBulkForm)" "isISODate (bulkEndDate exampleBulkForm)"
    "timeOf (bulkStartDate exampleBulkForm) \<le> timeOf (bulkEndDate exampleBulkForm)"
    by (simp_all add: exampleBulkForm_def handleBulkNumberChange_def emptyBulkForm_def
        example_valid timeOf_def example_times)
  have ok: "\<not> hasActiveBulkErrors (bulkErrors exampleBulkForm)"
    by (simp add: exampleBulkForm_def handleBulkNumberChange_def emptyBulkForm_def
        hasActiveBulkErrors_def fieldOrder_def)
  have off: "(0::int) \<le> 10800000" "(10800000::int) < msPerDay"
    by (simp_all add: msPerDay_def)
  have r: "isISODate (bulkStartDate rejectedBulkForm)" "isISODate (bulkEndDate rejectedBulkForm)"
    "timeOf (bulkStartDate rejectedBulkForm) \<le> timeOf (bulkEndDate rejectedBulkForm)"
    by (simp_all add: rejectedBulkForm_def handleBulkNumberChange_def emptyBulkForm_def
        example_valid timeOf_def example_times)
  have flagged: "hasActiveBulkErrors (bulkErrors rejectedBulkForm)"
    by (simp add: rejectedBulkForm_def handleBulkNumberChange_def emptyBulkForm_def
        hasActiveBulkErrors_def fieldOrder_def)
  note t = bulk_save_one_upsert_per_day
    [OF h, of saoPaulo threeMonthProfile 10800000, THEN conjunct2, rule_format,
     OF conjI [OF ok conjI [OF off(1) conjI [OF off(2) exampleBulkForm_steady]]],
     unfolded exampleBulkForm_saved]
  from t have "distinct (map date bulkSavedExample)"
    by blast
  moreover have "map date bulkSavedExample = [''2024-01-31'', ''2024-02-01'']"
    by (simp add: bulkSavedExample_def)
  moreover have "handleBulkSave (fixedZone 3600000) threeMonthProfile rejectedBulkForm =
       Some ([], FixFieldErrors)"
    using bulk_save_one_upsert_per_day
      [OF r, of "fixedZone 3600000" threeMonthProfile 0, THEN conjunct1] flagged
    by blast
  ultimately show ?thesis
    using h ok exampleBulkForm_steady exampleBulkForm_saved flagged by simp
qed

text \<open>
  Across the start of daylight saving time a day is lost. In Sao Paulo the bulk edit of
  3 to 5 November 2018 saves 3 and 4 November and stops: after the second step the current
  date is 5 November, 01:00 local time, which is after the end date, 5 November, 00:00.
  The zone is behind UTC throughout.
\<close>

lemma bulk_save_across_clock_change:
  "handleBulkSave saoPaulo threeMonthProfile (emptyBulkForm ''2018-11-03'' ''2018-11-05'') =
     Some ([\<lparr>date = ''2018-11-03'', newLeads = 0, discardedLeads = 0, repiqueLeads = Some 0,
        localVisits = 0, contactingLeads = 0, inProgressLeads = 0, scheduledLeads = 0,
        negotiationLeads = 0, creditAnalysisLeads = 0, approvedLeads = 0, signedLeads = 0\<rparr>,
       \<lparr>date = ''2018-11-04'', newLeads = 0, discardedLeads = 0, repiqueLeads = Some 0,
        localVisits = 0, contactingLeads = 0, inProgressLeads = 0, scheduledLeads = 0,
        negotiationLeads = 0, creditAnalysisLeads = 0, approvedLeads = 0, signedLeads = 0\<rparr>],
      BulkSaved)"
  by (simp add: handleBulkSave_def emptyBulkForm_def hasActiveBulkErrors_def fieldOrder_def
      clock_change_times example_local_midnights bulkLoop.simps example_steps
      example_iso_strings bulkUpdatedEntry_def pick_def orZero_def threeMonthProfile_def
      exampleEntry_def split del: if_split)

text \<open>
  East of Greenwich the dates written are one day early: in a zone one hour ahead of UTC
  (\<open>getTimezoneOffset() = -60\<close>) a bulk edit of 10 March alone writes an entry dated
  9 March, made of zeros although the broker has an entry on 10 March.
\<close>

lemma bulk_save_east_of_utc:
  "handleBulkSave (fixedZone 3600000) threeMonthProfile
       (emptyBulkForm ''2024-03-10'' ''2024-03-10'') =
     Some ([\<lparr>date = ''2024-03-09'', newLeads = 0, discardedLeads = 0, repiqueLeads = Some 0,
        localVisits = 0, contactingLeads = 0, inProgressLeads = 0, scheduledLeads = 0,
        negotiationLeads = 0, creditAnalysisLeads = 0, approvedLeads = 0, signedLeads = 0\<rparr>],
      BulkSaved)"
  by (simp add: handleBulkSave_def emptyBulkForm_def hasActiveBulkErrors_def fieldOrder_def
      example_times example_local_midnights bulkLoop.simps example_steps
      example_iso_strings bulkUpdatedEntry_def pick_def orZero_def threeMonthProfile_def
      exampleEntry_def split del: if_split)

end
